theory Spec2Isabelle
  imports Main "HOL-Library.Sublist"
begin

section \<open>Go strings, runes and the path helpers the analyzer calls\<close>

text \<open>
  A Go string is a sequence of bytes; \<^typ>\<open>string\<close> (a list of 8-bit \<^typ>\<open>char\<close>)
  models it byte for byte.  \<^verbatim>\<open>for _, c := range s\<close> walks the string rune by rune:
  each step decodes one UTF-8 sequence, and a byte that starts no valid sequence is
  delivered as \<^verbatim>\<open>utf8.RuneError\<close> (U+FFFD) of width one.
\<close>

definition RuneError :: nat where
  "RuneError = 0xFFFD"

definition isContinuation :: "nat \<Rightarrow> bool" where
  "isContinuation b = (0x80 \<le> b \<and> b \<le> 0xBF)"

fun DecodeRuneInString :: "string \<Rightarrow> nat \<times> nat" where
  "DecodeRuneInString [] = (RuneError, 0)"
| "DecodeRuneInString (c0 # s) =
    (let b0 = (of_char c0 :: nat) in
     if b0 < 0x80 then (b0, 1)
     else if b0 < 0xC2 \<or> 0xF4 < b0 then (RuneError, 1)
     else (case s of [] \<Rightarrow> (RuneError, 1) | c1 # s1 \<Rightarrow>
       let b1 = (of_char c1 :: nat);
           lo = (if b0 = 0xE0 then 0xA0 else if b0 = 0xF0 then 0x90 else 0x80);
           hi = (if b0 = 0xED then 0x9F else if b0 = 0xF4 then 0x8F else 0xBF)
       in if b1 < lo \<or> hi < b1 then (RuneError, 1)
          else if b0 < 0xE0 then ((b0 mod 32) * 64 + b1 mod 64, 2)
          else (case s1 of [] \<Rightarrow> (RuneError, 1) | c2 # s2 \<Rightarrow>
            let b2 = (of_char c2 :: nat)
            in if \<not> isContinuation b2 then (RuneError, 1)
               else if b0 < 0xF0
                 then ((b0 mod 16) * 4096 + (b1 mod 64) * 64 + b2 mod 64, 3)
               else (case s2 of [] \<Rightarrow> (RuneError, 1) | c3 # s3 \<Rightarrow>
                 let b3 = (of_char c3 :: nat)
                 in if \<not> isContinuation b3 then (RuneError, 1)
                    else ((b0 mod 8) * 262144 + (b1 mod 64) * 4096
                            + (b2 mod 64) * 64 + b3 mod 64, 4)))))"

lemma DecodeRuneInString_width:
  "s \<noteq> [] \<Longrightarrow> 0 < snd (DecodeRuneInString s)"
  by (cases s) (auto simp: Let_def split: list.splits)

text \<open>The runes a \<^verbatim>\<open>range\<close> loop over the string delivers, in order.\<close>

function rangeRunes :: "string \<Rightarrow> nat list" where
  "rangeRunes s =
     (if s = [] then []
      else fst (DecodeRuneInString s) # rangeRunes (drop (snd (DecodeRuneInString s)) s))"
  by pat_completeness auto
termination
proof (relation "measure length")
  show "wf (measure length)" by simp
next
  fix s :: string
  assume "s \<noteq> []"
  then show "(drop (snd (DecodeRuneInString s)) s, s) \<in> measure length"
    using DecodeRuneInString_width [of s] by (cases s) auto
qed

declare rangeRunes.simps [simp del]

text \<open>
  \<^verbatim>\<open>string(c)\<close> for a rune \<open>c\<close>: its UTF-8 encoding, and the encoding of U+FFFD for
  a surrogate or a value past U+10FFFF.
\<close>

definition runeToString :: "nat \<Rightarrow> string" where
  "runeToString r =
     (if r < 0x80 then [char_of r]
      else if r < 0x800 then [char_of (0xC0 + r div 64), char_of (0x80 + r mod 64)]
      else if (0xD800 \<le> r \<and> r \<le> 0xDFFF) \<or> 0x10FFFF < r
        then [char_of (0xEF :: nat), char_of (0xBF :: nat), char_of (0xBD :: nat)]
      else if r < 0x10000
        then [char_of (0xE0 + r div 4096), char_of (0x80 + (r div 64) mod 64),
              char_of (0x80 + r mod 64)]
      else [char_of (0xF0 + r div 262144), char_of (0x80 + (r div 4096) mod 64),
            char_of (0x80 + (r div 64) mod 64), char_of (0x80 + r mod 64)])"

text \<open>\<^verbatim>\<open>uint8(c)\<close> keeps the low eight bits of the rune.\<close>

definition uint8 :: "nat \<Rightarrow> nat" where
  "uint8 r = r mod 256"

text \<open>
  \<^verbatim>\<open>os.PathSeparator\<close> is \<^verbatim>\<open>'/'\<close> and \<^verbatim>\<open>os.IsPathSeparator\<close> compares a byte with it (the
  Unix build of the program).
\<close>

definition PathSeparator :: nat where
  "PathSeparator = 0x2F"

definition IsPathSeparator :: "nat \<Rightarrow> bool" where
  "IsPathSeparator c = (c = PathSeparator)"

text \<open>
  \<^verbatim>\<open>filepath.Ext\<close>: scanning from the last byte towards the first and stopping at a
  separator, the suffix that begins at the first dot met; empty if there is none.
\<close>

fun extScan :: "string \<Rightarrow> string \<Rightarrow> string" where
  "extScan [] seen = []"
| "extScan (c # front) seen =
     (if IsPathSeparator (of_char c) then []
      else if c = CHR ''.'' then c # seen
      else extScan front (c # seen))"

definition Ext :: "string \<Rightarrow> string" where
  "Ext path = extScan (rev path) []"

definition HasSuffix :: "string \<Rightarrow> string \<Rightarrow> bool" where
  "HasSuffix s suf = suffix suf s"

definition HasPrefix :: "string \<Rightarrow> string \<Rightarrow> bool" where
  "HasPrefix s pre = prefix pre s"

text \<open>
  \<^verbatim>\<open>filepath.Rel\<close>, \<^verbatim>\<open>filepath.Abs\<close> and \<^verbatim>\<open>filepath.Clean\<close> belong to the Go library and
  depend on the process (its working directory); the analyzer is verified for every
  behaviour of the three.  \<open>None\<close> is the error return.
\<close>

record filepathLib =
  filepath_Rel :: "string \<Rightarrow> string \<Rightarrow> string option"
  filepath_Abs :: "string \<Rightarrow> string option"
  filepath_Clean :: "string \<Rightarrow> string"

section \<open>The output model (models.go) and the analyzer state\<close>

record Node =
  ID :: string
  Name :: string
  ComponentType :: string
  FilePath :: string
  RelativePath :: string
  DependsOn :: "string list"
  SourceCode :: string
  StartLine :: int
  EndLine :: int
  HasDocstring :: bool
  Docstring :: string
  Parameters :: "string list"
  NodeType :: string
  BaseClasses :: "string list"
  ClassName :: string
  DisplayName :: string
  ComponentID :: string

record CallRelationship =
  Caller :: string
  Callee :: string
  CallLine :: int
  IsResolved :: bool
  RelationshipType :: string

text \<open>
  The analyzer's fields.  \<open>FileSet\<close> is not a field of the model: the syntax tree below
  stores, with each node, the \<^verbatim>\<open>token.Position\<close> the file set gives for it.
\<close>

record GoAnalyzer =
  RepoPath :: string
  RepoAbs :: string
  Nodes :: "Node list"
  Relationships :: "CallRelationship list"
  CollectedNodeIDs :: "string \<rightharpoonup> bool"

definition NewGoAnalyzer :: "filepathLib \<Rightarrow> string \<Rightarrow> GoAnalyzer option" where
  "NewGoAnalyzer L repoPath =
     (case filepath_Abs L repoPath of
        None \<Rightarrow> None
      | Some repoAbs \<Rightarrow>
          Some \<lparr>RepoPath = repoPath, RepoAbs = repoAbs, Nodes = [], Relationships = [],
                CollectedNodeIDs = Map.empty\<rparr>)"

text \<open>Reading a \<^verbatim>\<open>map[string]bool\<close>: a missing key reads as \<^verbatim>\<open>false\<close>.\<close>

definition lookupBool :: "(string \<rightharpoonup> bool) \<Rightarrow> string \<Rightarrow> bool" where
  "lookupBool m k = (case m k of None \<Rightarrow> False | Some b \<Rightarrow> b)"

section \<open>The identifier scheme\<close>

text \<open>
  The loop of \<^verbatim>\<open>getComponentIDForFile\<close> that builds \<^verbatim>\<open>modulePath\<close>: one step per rune of
  \<^verbatim>\<open>pathNoExt\<close>, testing \<^verbatim>\<open>os.IsPathSeparator(uint8(c))\<close>.
\<close>

fun modulePathLoop :: "nat list \<Rightarrow> string \<Rightarrow> string" where
  "modulePathLoop [] modulePath = modulePath"
| "modulePathLoop (c # cs) modulePath =
     (if IsPathSeparator (uint8 c) then modulePathLoop cs (modulePath @ ''.'')
      else modulePathLoop cs (modulePath @ runeToString c))"

definition relPathOf :: "filepathLib \<Rightarrow> string \<Rightarrow> string \<Rightarrow> string" where
  "relPathOf L repoAbs filePath =
     (case filepath_Rel L repoAbs filePath of None \<Rightarrow> [] | Some r \<Rightarrow> r)"

definition getComponentIDForFile ::
  "filepathLib \<Rightarrow> GoAnalyzer \<Rightarrow> string \<Rightarrow> string \<Rightarrow> string \<Rightarrow> string" where
  "getComponentIDForFile L a filePath name receiverType =
     (let relPath = relPathOf L (RepoAbs a) filePath;
          ext = Ext relPath;
          pathNoExt = take (length relPath - length ext) relPath;
          modulePath = modulePathLoop (rangeRunes pathNoExt) []
      in if receiverType \<noteq> [] then modulePath @ ''.'' @ receiverType @ ''.'' @ name
         else modulePath @ ''.'' @ name)"

section \<open>The syntax tree and the type facts\<close>

text \<open>
  The part of \<^verbatim>\<open>go/ast\<close> the analyzer looks at.  A node stores the \<^verbatim>\<open>token.Position\<close>
  values that \<^verbatim>\<open>a.FileSet.Position\<close> returns for its \<^verbatim>\<open>Pos()\<close> and \<^verbatim>\<open>End()\<close>; offsets
  and lines are Go \<^verbatim>\<open>int\<close>s.  A comment group stores its position and its comments.
  Identifiers and selector expressions carry an address, the key
  under which the type checker files its facts about them.
\<close>

record position =
  Filename :: string
  Offset :: int
  Line :: int

text \<open>
  The scanner only yields comment texts of the two forms \<^verbatim>\<open>//...\<close> and \<^verbatim>\<open>/*...*/\<close>:
  \<open>LineComment c\<close> is the comment \<^verbatim>\<open>//\<close> followed by \<open>c\<close>, and \<open>BlockComment c\<close> is \<open>c\<close>
  between \<^verbatim>\<open>/*\<close> and \<^verbatim>\<open>*/\<close>.
\<close>

datatype comment = LineComment string | BlockComment string

record commentGroup =
  cgPosition :: position
  cgList :: "comment list"

text \<open>
  The method \<^verbatim>\<open>Text\<close> of \<^verbatim>\<open>ast.CommentGroup\<close> (Go library, \<^verbatim>\<open>go/ast\<close>), which both visitors
  call for the docstring.  It removes the comment markers, the first space of a line
  comment and the white space at the end of every line, skips directive comments such
  as \<^verbatim>\<open>//go:generate\<close>, drops leading blank lines, merges runs of blank lines, and ends a
  non-empty result with a newline.  \<open>strings_Index\<close>, \<open>strings_Split\<close> and \<open>strings_Join\<close>
  are \<^verbatim>\<open>strings.Index\<close>, \<^verbatim>\<open>strings.Split\<close> and \<^verbatim>\<open>strings.Join\<close> for the one-byte separators
  they are called with here.
\<close>

definition isWhitespace :: "char \<Rightarrow> bool" where
  "isWhitespace ch \<longleftrightarrow> ch = CHR '' '' \<or> ch = CHR 0x09 \<or> ch = CHR 0x0A \<or> ch = CHR 0x0D"

text \<open>\<^verbatim>\<open>i := len(s); for i > 0 && isWhitespace(s[i-1]) { i-- }; return s[0:i]\<close>\<close>

definition stripTrailingWhitespace :: "string \<Rightarrow> string" where
  "stripTrailingWhitespace s = rev (dropWhile isWhitespace (rev s))"

definition strings_Index :: "string \<Rightarrow> char \<Rightarrow> int" where
  "strings_Index s sep =
     (if sep \<in> set s then int (length (takeWhile (\<lambda>x. x \<noteq> sep) s)) else - 1)"

definition lowerOrDigit :: "char \<Rightarrow> bool" where
  "lowerOrDigit b \<longleftrightarrow>
     (97 \<le> (of_char b :: nat) \<and> (of_char b :: nat) \<le> 122) \<or>
     (48 \<le> (of_char b :: nat) \<and> (of_char b :: nat) \<le> 57)"

text \<open>
  \<^verbatim>\<open>isDirective\<close>: the text after \<^verbatim>\<open>//\<close> begins with \<^verbatim>\<open>line \<close>, \<^verbatim>\<open>extern \<close> or \<^verbatim>\<open>export \<close>, or
  has the shape \<^verbatim>\<open>[a-z0-9]+:[a-z0-9]\<close> up to the byte after its first colon.
\<close>

definition isDirective :: "string \<Rightarrow> bool" where
  "isDirective c =
     (if HasPrefix c ''line '' \<or> HasPrefix c ''extern '' \<or> HasPrefix c ''export '' then True
      else let colon = strings_Index c (CHR '':'')
           in if colon \<le> 0 \<or> colon + 1 \<ge> int (length c) then False
              else list_all (\<lambda>i. i = nat colon \<or> lowerOrDigit (c ! i)) [0 ..< nat colon + 2])"

fun splitLoop :: "string \<Rightarrow> string \<Rightarrow> string list" where
  "splitLoop [] cur = [cur]"
| "splitLoop (x # xs) cur =
     (if x = CHR 0x0A then cur # splitLoop xs [] else splitLoop xs (cur @ [x]))"

definition strings_Split :: "string \<Rightarrow> string list" where
  "strings_Split c = splitLoop c []"

fun strings_Join :: "string list \<Rightarrow> string" where
  "strings_Join [] = []"
| "strings_Join [l] = l"
| "strings_Join (l # ls) = l @ [CHR 0x0A] @ strings_Join ls"

text \<open>The lines one comment contributes (the body of the first loop of \<^verbatim>\<open>Text\<close>).\<close>

definition commentLines :: "comment \<Rightarrow> string list" where
  "commentLines cm =
     (case cm of
        LineComment c \<Rightarrow>
          if c = [] then map stripTrailingWhitespace (strings_Split c)
          else if hd c = CHR '' '' then map stripTrailingWhitespace (strings_Split (tl c))
          else if isDirective c then []
          else map stripTrailingWhitespace (strings_Split c)
      | BlockComment c \<Rightarrow> map stripTrailingWhitespace (strings_Split c))"

text \<open>
  The second loop of \<^verbatim>\<open>Text\<close> keeps a line if it is not empty or if the last line kept is
  not empty: \<^verbatim>\<open>if line != "" || n > 0 && lines[n-1] != "" { lines[n] = line; n++ }\<close>.
\<close>

fun squeezeLoop :: "string list \<Rightarrow> string list \<Rightarrow> string list" where
  "squeezeLoop [] kept = kept"
| "squeezeLoop (line # rest) kept =
     squeezeLoop rest
       (if line \<noteq> [] \<or> (kept \<noteq> [] \<and> last kept \<noteq> []) then kept @ [line] else kept)"

definition CommentGroup_Text :: "commentGroup \<Rightarrow> string" where
  "CommentGroup_Text g =
     (let lines = squeezeLoop (concat (map commentLines (cgList g))) [];
          lines' = (if lines \<noteq> [] \<and> last lines \<noteq> [] then lines @ [[]] else lines)
      in strings_Join lines')"

datatype token = token_TYPE | token_IMPORT | token_CONST | token_VAR

type_synonym addr = nat

text \<open>
  A field list is kept as the list of its fields, each field as the names it declares
  and its type expression; \<open>None\<close> is a nil list.  \<open>Other\<close> stands for every node kind
  the analyzer only walks through (statements, literals, function literals, and so on).
  Arguments, in order:
  \<^item> \<open>Ident\<close>: address, \<^verbatim>\<open>Name\<close>;
  \<^item> \<open>SelectorExpr\<close>: address, \<^verbatim>\<open>X\<close>, address of \<^verbatim>\<open>Sel\<close>, \<^verbatim>\<open>Sel.Name\<close>;
  \<^item> \<open>CallExpr\<close>: position of \<^verbatim>\<open>Pos()\<close>, \<^verbatim>\<open>Fun\<close>, \<^verbatim>\<open>Args\<close>;
  \<^item> \<open>TypeSpec\<close>: \<^verbatim>\<open>Doc\<close>, \<^verbatim>\<open>Name.Name\<close>, type parameters, \<^verbatim>\<open>Type\<close>, positions of
    \<^verbatim>\<open>Pos()\<close> and \<^verbatim>\<open>End()\<close>;
  \<^item> \<open>GenDecl\<close>: \<^verbatim>\<open>Tok\<close>, \<^verbatim>\<open>Doc\<close>, \<^verbatim>\<open>Specs\<close>;
  \<^item> \<open>FuncDecl\<close>: \<^verbatim>\<open>Doc\<close>, \<^verbatim>\<open>Recv\<close>, \<^verbatim>\<open>Name.Name\<close>, \<^verbatim>\<open>Type.Params\<close>, the type parameters
    and results of \<^verbatim>\<open>Type\<close>, \<^verbatim>\<open>Body\<close>, positions of \<^verbatim>\<open>Pos()\<close> and \<^verbatim>\<open>End()\<close>;
  \<^item> \<open>File\<close>: position of \<^verbatim>\<open>Pos()\<close>, \<^verbatim>\<open>Decls\<close>.
\<close>

datatype ast =
    Ident addr string
  | StarExpr ast
  | SelectorExpr addr ast addr string
  | IndexExpr ast ast
  | IndexListExpr ast "ast list"
  | CallExpr position ast "ast list"
  | StructType "ast list"
  | InterfaceType "ast list"
  | TypeSpec "commentGroup option" string "ast list" ast position position
  | GenDecl token "commentGroup option" "ast list"
  | FuncDecl "commentGroup option" "(string list \<times> ast) list option" string
      "(string list \<times> ast) list option" "ast list" "ast option" position position
  | File position "ast list"
  | Other "ast list"

fun fieldTypes :: "(string list \<times> ast) list option \<Rightarrow> ast list" where
  "fieldTypes None = []"
| "fieldTypes (Some fs) = map snd fs"

fun children :: "ast \<Rightarrow> ast list" where
  "children (Ident i n) = []"
| "children (StarExpr x) = [x]"
| "children (SelectorExpr i x j s) = [x, Ident j s]"
| "children (IndexExpr x ix) = [x, ix]"
| "children (IndexListExpr x ixs) = x # ixs"
| "children (CallExpr p f args) = f # args"
| "children (StructType fs) = fs"
| "children (InterfaceType fs) = fs"
| "children (TypeSpec d n tps t p e) = tps @ [t]"
| "children (GenDecl tok d specs) = specs"
| "children (FuncDecl d recv n params sig body p e) =
     fieldTypes recv @ fieldTypes params @ sig @ (case body of None \<Rightarrow> [] | Some b \<Rightarrow> [b])"
| "children (File p decls) = decls"
| "children (Other xs) = xs"

lemma size_member: "c \<in> set xs \<Longrightarrow> size c \<le> size_list size xs"
  by (induction xs) auto

lemma size_field_member:
  "(ns, c) \<in> set fs \<Longrightarrow> size c \<le> size_list (size_prod (\<lambda>_. 0) size) fs"
  by (induction fs) auto

lemma size_fieldTypes:
  "c \<in> set (fieldTypes fl) \<Longrightarrow>
     size c \<le> size_option (size_list (size_prod (\<lambda>_. 0) size)) fl"
  by (cases fl) (auto dest: size_field_member)

lemma children_size: "c \<in> set (children n) \<Longrightarrow> size c < size n"
  by (cases n) (auto dest: size_member size_fieldTypes split: option.splits)

text \<open>
  \<^verbatim>\<open>ast.Inspect(root, f)\<close> with an \<open>f\<close> that always returns \<^verbatim>\<open>true\<close> (as every callback
  of the analyzer does) calls \<open>f\<close> on the root and on all its descendants, depth first,
  a node before its children: on the nodes of \<open>preorder root\<close>, in that order.
\<close>

function preorder :: "ast \<Rightarrow> ast list" where
  "preorder n = n # concat (map preorder (children n))"
  by pat_completeness auto
termination
  by (relation "measure size") (auto dest: children_size)

declare preorder.simps [simp del]

text \<open>
  The facts of \<^verbatim>\<open>go/types\<close> the resolver reads.  A \<^verbatim>\<open>*types.Func\<close> is given by the
  position of its declaration (\<open>None\<close> for \<^verbatim>\<open>token.NoPos\<close>), its name, the name of its
  package (\<open>None\<close> for a nil package) and the receiver of its signature.  A type is
  a pointer to a type, or any other type given by its \<^verbatim>\<open>types.TypeString\<close> under the
  qualifier that prints no package name.  A selection is given by its object and by
  the \<^verbatim>\<open>types.TypeString\<close> of its receiver under the qualifier \<^verbatim>\<open>resolveCallWithTypes\<close>
  passes.
\<close>

datatype gotype = Pointer gotype | TypeNamed string

datatype object =
    Func "position option" string "string option" "gotype option"
  | Builtin
  | PkgName
  | OtherObject

record selection =
  selObj :: object
  selRecvString :: string

record typesInfo =
  Uses :: "addr \<rightharpoonup> object"
  Selections :: "addr \<rightharpoonup> selection"

record fileInfo =
  astFile :: ast
  info :: "typesInfo option"
  pkg :: "string option"
  content :: string

section \<open>The collection pass\<close>

fun indicesLoop :: "nat \<Rightarrow> string list \<Rightarrow> string \<Rightarrow> string" where
  "indicesLoop i [] indices = indices"
| "indicesLoop i (idx # rest) indices =
     indicesLoop (Suc i) rest ((if i > 0 then indices @ '', '' else indices) @ idx)"

fun typeToString :: "ast \<Rightarrow> string" where
  "typeToString (Ident i n) = n"
| "typeToString (StarExpr x) = ''*'' @ typeToString x"
| "typeToString (SelectorExpr i x j s) = typeToString x @ ''.'' @ s"
| "typeToString (IndexExpr x ix) = typeToString x @ ''['' @ typeToString ix @ '']''"
| "typeToString (IndexListExpr x ixs) =
     typeToString x @ ''['' @ indicesLoop 0 (map typeToString ixs) [] @ '']''"
| "typeToString _ = []"

text \<open>
  The slice expression \<^verbatim>\<open>content[lo:hi]\<close>: Go panics unless \<open>0 \<le> lo \<le> hi \<le> cap(content)\<close>.
  The model takes the capacity to be the length, so it panics wherever Go does.
\<close>

datatype failure = WalkError | LoadError | ReadError | SliceBoundsOutOfRange

definition sliceBytes :: "string \<Rightarrow> int \<Rightarrow> int \<Rightarrow> failure + string" where
  "sliceBytes buf lo hi =
     (if 0 \<le> lo \<and> lo \<le> hi \<and> hi \<le> int (length buf)
      then Inr (take (nat (hi - lo)) (drop (nat lo) buf))
      else Inl SliceBoundsOutOfRange)"

text \<open>
  The ``capture source code'' step shared by \<^verbatim>\<open>visitTypeSpec\<close> and \<^verbatim>\<open>visitFuncDecl\<close>:
  \<^verbatim>\<open>sourceCode\<close> starts as the empty string and is assigned the slice under the guard.
\<close>

definition captureSource :: "string \<Rightarrow> int \<Rightarrow> int \<Rightarrow> failure + string" where
  "captureSource buf startOffset endOffset =
     (if startOffset \<ge> 0 \<and> endOffset \<le> int (length buf) \<and> startOffset \<le> endOffset
      then sliceBytes buf startOffset endOffset
      else Inr [])"

definition registerNode :: "GoAnalyzer \<Rightarrow> string \<Rightarrow> Node \<Rightarrow> GoAnalyzer" where
  "registerNode a componentID node =
     a\<lparr>CollectedNodeIDs := (CollectedNodeIDs a)(componentID \<mapsto> True),
       Nodes := Nodes a @ [node]\<rparr>"

definition typeSpecKind :: "ast \<Rightarrow> string option" where
  "typeSpecKind t =
     (case t of InterfaceType _ \<Rightarrow> Some ''interface''
              | StructType _ \<Rightarrow> Some ''struct''
              | _ \<Rightarrow> None)"

text \<open>
  The \<^verbatim>\<open>models.Node\<close> literal of \<^verbatim>\<open>visitTypeSpec\<close>, followed by its
  \<^verbatim>\<open>if doc != nil\<close> update.
\<close>

definition typeSpecNode ::
  "filepathLib \<Rightarrow> GoAnalyzer \<Rightarrow> string \<Rightarrow> string \<Rightarrow> position \<Rightarrow> position
     \<Rightarrow> commentGroup option \<Rightarrow> string \<Rightarrow> string \<Rightarrow> Node" where
  "typeSpecNode L a tsName nodeType startPos endPos doc filePath sourceCode =
     (let relativePath = relPathOf L (RepoAbs a) filePath;
          componentID = getComponentIDForFile L a filePath tsName [];
          node = \<lparr>ID = componentID, Name = tsName, ComponentType = ''class'',
                  FilePath = filePath, RelativePath = relativePath,
                  DependsOn = [], SourceCode = sourceCode,
                  StartLine = Line startPos, EndLine = Line endPos,
                  HasDocstring = False, Docstring = [], Parameters = [],
                  NodeType = nodeType, BaseClasses = [], ClassName = [],
                  DisplayName = nodeType @ '' '' @ tsName,
                  ComponentID = componentID\<rparr>
      in case doc of
           Some d \<Rightarrow> node\<lparr>HasDocstring := True, Docstring := CommentGroup_Text d\<rparr>
         | None \<Rightarrow> node)"

definition visitTypeSpec ::
  "filepathLib \<Rightarrow> GoAnalyzer \<Rightarrow> ast \<Rightarrow> commentGroup option \<Rightarrow> string \<Rightarrow> string
     \<Rightarrow> failure + GoAnalyzer" where
  "visitTypeSpec L a ts genDeclDoc filePath buf =
     (case ts of
        TypeSpec tsDoc tsName tparams tsType startPos endPos \<Rightarrow>
          (case typeSpecKind tsType of
             None \<Rightarrow> Inr a
           | Some nodeType \<Rightarrow>
               let componentID = getComponentIDForFile L a filePath tsName [];
                   doc = (case tsDoc of None \<Rightarrow> genDeclDoc | Some d \<Rightarrow> Some d);
                   startOffset = (case doc of Some d \<Rightarrow> Offset (cgPosition d)
                                            | None \<Rightarrow> Offset startPos);
                   endOffset = Offset endPos
               in case captureSource buf startOffset endOffset of
                    Inl p \<Rightarrow> Inl p
                  | Inr sourceCode \<Rightarrow>
                      Inr (registerNode a componentID
                             (typeSpecNode L a tsName nodeType startPos endPos doc filePath
                                sourceCode)))
      | _ \<Rightarrow> Inr a)"

text \<open>
  The receiver loops, of \<^verbatim>\<open>visitFuncDecl\<close> (\<open>recvTypeLoop\<close>) and of \<^verbatim>\<open>visitFuncBodyForCalls\<close>
  (\<open>recvLoop\<close>): \<^verbatim>\<open>recvType\<close> ends as the type string of the last field with a leading
  \<^verbatim>\<open>*\<close> removed, \<^verbatim>\<open>recvName\<close> as the first name of the last field that has names.
\<close>

definition stripPointer :: "string \<Rightarrow> string" where
  "stripPointer typeStr =
     (if length typeStr > 0 \<and> typeStr ! 0 = CHR ''*'' then drop 1 typeStr else typeStr)"

fun recvTypeLoop :: "(string list \<times> ast) list \<Rightarrow> string \<Rightarrow> string" where
  "recvTypeLoop [] recvType = recvType"
| "recvTypeLoop (field # rest) recvType =
     recvTypeLoop rest (stripPointer (typeToString (snd field)))"

fun recvLoop :: "(string list \<times> ast) list \<Rightarrow> string \<times> string \<Rightarrow> string \<times> string" where
  "recvLoop [] (recvType, recvName) = (recvType, recvName)"
| "recvLoop (field # rest) (recvType, recvName) =
     recvLoop rest (stripPointer (typeToString (snd field)),
                    if length (fst field) > 0 then fst field ! 0 else recvName)"

definition paramNames :: "(string list \<times> ast) list option \<Rightarrow> string list" where
  "paramNames params = (case params of None \<Rightarrow> [] | Some fs \<Rightarrow> concat (map fst fs))"

text \<open>
  The \<^verbatim>\<open>models.Node\<close> literal of \<^verbatim>\<open>visitFuncDecl\<close>, followed by its \<^verbatim>\<open>if fn.Doc != nil\<close>
  update and the assignment of \<^verbatim>\<open>Parameters\<close>.
\<close>

definition funcDeclNode ::
  "filepathLib \<Rightarrow> GoAnalyzer \<Rightarrow> commentGroup option \<Rightarrow> (string list \<times> ast) list option
     \<Rightarrow> string \<Rightarrow> (string list \<times> ast) list option \<Rightarrow> position \<Rightarrow> position \<Rightarrow> string
     \<Rightarrow> string \<Rightarrow> Node" where
  "funcDeclNode L a fnDoc fnRecv fnName fnParams startPos endPos filePath sourceCode =
     (let relativePath = relPathOf L (RepoAbs a) filePath;
          className = (case fnRecv of None \<Rightarrow> [] | Some fs \<Rightarrow> recvTypeLoop fs []);
          componentID = (case fnRecv of
                           Some fs \<Rightarrow> getComponentIDForFile L a filePath fnName
                                       (recvTypeLoop fs [])
                         | None \<Rightarrow> getComponentIDForFile L a filePath fnName []);
          displayName = (case fnRecv of
                           Some fs \<Rightarrow> ''method '' @ recvTypeLoop fs [] @ ''.'' @ fnName
                         | None \<Rightarrow> ''func '' @ fnName);
          componentType = (if fnRecv \<noteq> None then ''method'' else ''function'');
          nodeType = (if fnRecv \<noteq> None then ''method'' else ''function'');
          node = \<lparr>ID = componentID, Name = fnName, ComponentType = componentType,
                  FilePath = filePath, RelativePath = relativePath,
                  DependsOn = [], SourceCode = sourceCode,
                  StartLine = Line startPos, EndLine = Line endPos,
                  HasDocstring = False, Docstring = [], Parameters = [],
                  NodeType = nodeType, BaseClasses = [], ClassName = className,
                  DisplayName = displayName, ComponentID = componentID\<rparr>;
          node' = (case fnDoc of
                     Some d \<Rightarrow> node\<lparr>HasDocstring := True, Docstring := CommentGroup_Text d\<rparr>
                   | None \<Rightarrow> node)
      in node'\<lparr>Parameters := paramNames fnParams\<rparr>)"

definition visitFuncDecl ::
  "filepathLib \<Rightarrow> GoAnalyzer \<Rightarrow> ast \<Rightarrow> string \<Rightarrow> string \<Rightarrow> failure + GoAnalyzer" where
  "visitFuncDecl L a fn filePath buf =
     (case fn of
        FuncDecl fnDoc fnRecv fnName fnParams sig fnBody startPos endPos \<Rightarrow>
          let componentID = (case fnRecv of
                               Some fs \<Rightarrow> getComponentIDForFile L a filePath fnName
                                           (recvTypeLoop fs [])
                             | None \<Rightarrow> getComponentIDForFile L a filePath fnName []);
              startOffset = (case fnDoc of Some d \<Rightarrow> Offset (cgPosition d)
                                         | None \<Rightarrow> Offset startPos);
              endOffset = Offset endPos
          in case captureSource buf startOffset endOffset of
               Inl p \<Rightarrow> Inl p
             | Inr sourceCode \<Rightarrow>
                 Inr (registerNode a componentID
                        (funcDeclNode L a fnDoc fnRecv fnName fnParams startPos endPos filePath
                           sourceCode))
      | _ \<Rightarrow> Inr a)"

text \<open>A loop whose body may panic: the first failure ends it.\<close>

fun forEach :: "('x \<Rightarrow> 's \<Rightarrow> failure + 's) \<Rightarrow> 'x list \<Rightarrow> 's \<Rightarrow> failure + 's" where
  "forEach body [] s = Inr s"
| "forEach body (x # xs) s =
     (case body x s of Inl e \<Rightarrow> Inl e | Inr s' \<Rightarrow> forEach body xs s')"

text \<open>The callback \<^verbatim>\<open>collectNodes\<close> hands to \<^verbatim>\<open>ast.Inspect\<close>, and the pass over one file.\<close>

definition collectVisit ::
  "filepathLib \<Rightarrow> string \<Rightarrow> string \<Rightarrow> ast \<Rightarrow> GoAnalyzer \<Rightarrow> failure + GoAnalyzer" where
  "collectVisit L filePath buf n a =
     (case n of
        GenDecl tok doc specs \<Rightarrow>
          (if tok = token_TYPE
           then forEach (\<lambda>spec a'. visitTypeSpec L a' spec doc filePath buf) specs a
           else Inr a)
      | FuncDecl fnDoc fnRecv fnName fnParams sig fnBody startPos endPos \<Rightarrow>
          visitFuncDecl L a n filePath buf
      | _ \<Rightarrow> Inr a)"

definition collectNodes ::
  "filepathLib \<Rightarrow> GoAnalyzer \<Rightarrow> string \<Rightarrow> fileInfo \<Rightarrow> failure + GoAnalyzer" where
  "collectNodes L a filePath fi =
     forEach (collectVisit L filePath (content fi)) (preorder (astFile fi)) a"

section \<open>The resolution pass\<close>

definition builtinFuncs :: "string list" where
  "builtinFuncs =
     [''append'', ''cap'', ''clear'', ''close'', ''complex'',
      ''copy'', ''delete'', ''imag'', ''len'', ''max'', ''min'',
      ''make'', ''new'', ''panic'', ''print'', ''println'',
      ''real'', ''recover'']"

definition builtinTypes :: "string list" where
  "builtinTypes =
     [''bool'', ''byte'', ''complex64'', ''complex128'',
      ''error'', ''float32'', ''float64'',
      ''int'', ''int8'', ''int16'', ''int32'', ''int64'',
      ''rune'', ''string'',
      ''uint'', ''uint8'', ''uint16'', ''uint32'', ''uint64'', ''uintptr'',
      ''any'', ''comparable'']"

definition builtinConsts :: "string list" where
  "builtinConsts = [''true'', ''false'', ''nil'', ''iota'']"

definition isBuiltin :: "string \<Rightarrow> bool" where
  "isBuiltin name =
     (name \<in> set builtinFuncs \<or> name \<in> set builtinTypes \<or> name \<in> set builtinConsts)"

definition isTestFile :: "string \<Rightarrow> bool" where
  "isTestFile path = HasSuffix path ''_test.go''"

definition isPathInRepo :: "filepathLib \<Rightarrow> string \<Rightarrow> string \<Rightarrow> bool" where
  "isPathInRepo L repoAbs path =
     (let repoAbs' = filepath_Clean L repoAbs;
          path' = filepath_Clean L path
      in if repoAbs' = path' then True
         else HasPrefix path' (repoAbs' @ [char_of PathSeparator]))"

text \<open>
  \<^verbatim>\<open>absPath, err := filepath.Abs(filename); if err == nil { filename = absPath }\<close>
\<close>

definition absOrSame :: "filepathLib \<Rightarrow> string \<Rightarrow> string" where
  "absOrSame L filename =
     (case filepath_Abs L filename of Some absPath \<Rightarrow> absPath | None \<Rightarrow> filename)"

text \<open>
  \<^verbatim>\<open>NewGoAnalyzer\<close> always sets \<^verbatim>\<open>FileSet\<close>, so only \<^verbatim>\<open>token.NoPos\<close> and the empty file name
  lead to the early returns of the next two functions.
\<close>

definition getComponentIDForPos ::
  "filepathLib \<Rightarrow> GoAnalyzer \<Rightarrow> position option \<Rightarrow> string \<Rightarrow> string \<Rightarrow> string" where
  "getComponentIDForPos L a pos name receiverType =
     (case pos of
        None \<Rightarrow> []
      | Some p \<Rightarrow>
          if Filename p = [] then []
          else getComponentIDForFile L a (absOrSame L (Filename p)) name receiverType)"

definition isPosInRepo :: "filepathLib \<Rightarrow> GoAnalyzer \<Rightarrow> position option \<Rightarrow> bool" where
  "isPosInRepo L a pos =
     (case pos of
        None \<Rightarrow> False
      | Some p \<Rightarrow>
          if Filename p = [] then False
          else isPathInRepo L (RepoAbs a) (absOrSame L (Filename p)))"

fun TypeString :: "gotype \<Rightarrow> string" where
  "TypeString (Pointer t) = ''*'' @ TypeString t"
| "TypeString (TypeNamed s) = s"

definition receiverTypeString :: "gotype option \<Rightarrow> string" where
  "receiverTypeString recv =
     (case recv of
        None \<Rightarrow> []
      | Some (Pointer elem) \<Rightarrow> TypeString elem
      | Some recvType \<Rightarrow> TypeString recvType)"

text \<open>
  \<^verbatim>\<open>resolveCallWithTypes\<close> returns the callee name, the resolved flag and whether it
  classified the call.  Its parameter \<^verbatim>\<open>typePkg\<close> only chooses the qualifier under which
  the receiver of a selection is printed, which \<open>selRecvString\<close> already holds.
\<close>

definition resolveFunc ::
  "filepathLib \<Rightarrow> GoAnalyzer \<Rightarrow> position option \<Rightarrow> string \<Rightarrow> string \<Rightarrow> string
     \<Rightarrow> string \<times> bool \<times> bool" where
  "resolveFunc L a fnPos fnName recvType fallback =
     (let calleeName = getComponentIDForPos L a fnPos fnName recvType
      in if calleeName \<noteq> [] \<and> isPosInRepo L a fnPos
         then (calleeName, lookupBool (CollectedNodeIDs a) calleeName, True)
         else (fallback, False, True))"

definition resolveCallWithTypes ::
  "filepathLib \<Rightarrow> GoAnalyzer \<Rightarrow> ast \<Rightarrow> typesInfo \<Rightarrow> string \<times> bool \<times> bool" where
  "resolveCallWithTypes L a call typeInfo =
     (case call of
        CallExpr callPos (Ident funAddr funName) args \<Rightarrow>
          (case Uses typeInfo funAddr of
             Some (Func fnPos fnName fnPkg fnRecv) \<Rightarrow>
               resolveFunc L a fnPos fnName []
                 (case fnPkg of Some pkgName \<Rightarrow> pkgName @ ''.'' @ fnName | None \<Rightarrow> fnName)
           | Some Builtin \<Rightarrow> (funName, False, True)
           | _ \<Rightarrow> ([], False, False))
      | CallExpr callPos (SelectorExpr funAddr x selAddr selName) args \<Rightarrow>
          (case Selections typeInfo funAddr of
             Some sel \<Rightarrow>
               (case selObj sel of
                  Func fnPos fnName fnPkg fnRecv \<Rightarrow>
                    resolveFunc L a fnPos fnName (receiverTypeString fnRecv)
                      (selRecvString sel @ ''.'' @ fnName)
                | _ \<Rightarrow> ([], False, False))
           | None \<Rightarrow>
               (case x of
                  Ident xAddr xName \<Rightarrow>
                    (case Uses typeInfo xAddr of
                       Some PkgName \<Rightarrow>
                         (case Uses typeInfo selAddr of
                            Some (Func fnPos fnName fnPkg fnRecv) \<Rightarrow>
                              resolveFunc L a fnPos fnName [] (xName @ ''.'' @ fnName)
                          | _ \<Rightarrow> ([], False, False))
                     | _ \<Rightarrow> ([], False, False))
                | _ \<Rightarrow> ([], False, False)))
      | _ \<Rightarrow> ([], False, False))"

definition appendCall ::
  "GoAnalyzer \<Rightarrow> string \<Rightarrow> string \<Rightarrow> int \<Rightarrow> bool \<Rightarrow> GoAnalyzer" where
  "appendCall a callerID calleeName line resolved =
     a\<lparr>Relationships := Relationships a @
         [\<lparr>Caller = callerID, Callee = calleeName, CallLine = line,
           IsResolved = resolved, RelationshipType = ''calls''\<rparr>]\<rparr>"

text \<open>The \<^verbatim>\<open>switch\<close> of \<^verbatim>\<open>processCall\<close> that guesses the callee name without type facts.\<close>

definition heuristicCallee ::
  "filepathLib \<Rightarrow> GoAnalyzer \<Rightarrow> string \<Rightarrow> string \<Rightarrow> ast \<Rightarrow> string \<Rightarrow> string" where
  "heuristicCallee L a recvName recvType fun filePath =
     (case fun of
        Ident funAddr funName \<Rightarrow>
          if \<not> isBuiltin funName then getComponentIDForFile L a filePath funName []
          else funName
      | SelectorExpr funAddr x selAddr selName \<Rightarrow>
          (case x of
             Ident xAddr xName \<Rightarrow>
               if recvName \<noteq> [] \<and> recvType \<noteq> [] \<and> xName = recvName
               then getComponentIDForFile L a filePath selName recvType
               else xName @ ''.'' @ selName
           | _ \<Rightarrow> [])
      | _ \<Rightarrow> [])"

definition processCall ::
  "filepathLib \<Rightarrow> GoAnalyzer \<Rightarrow> string \<Rightarrow> string \<Rightarrow> string \<Rightarrow> ast \<Rightarrow> typesInfo option
     \<Rightarrow> string option \<Rightarrow> string \<Rightarrow> GoAnalyzer" where
  "processCall L a callerID recvName recvType call typeInfo typePkg filePath =
     (case call of
        CallExpr callPos fun args \<Rightarrow>
          let typed = (case typeInfo of
                         Some ti \<Rightarrow> if typePkg \<noteq> None then Some (resolveCallWithTypes L a call ti)
                                    else None
                       | None \<Rightarrow> None)
          in (case typed of
                Some (calleeName, resolved, True) \<Rightarrow>
                  if calleeName \<noteq> []
                  then appendCall a callerID calleeName (Line callPos) resolved
                  else a
              | _ \<Rightarrow>
                  let calleeName = heuristicCallee L a recvName recvType fun filePath
                  in if calleeName \<noteq> []
                     then appendCall a callerID calleeName (Line callPos)
                            (lookupBool (CollectedNodeIDs a) calleeName)
                     else a)
      | _ \<Rightarrow> a)"

definition callVisit ::
  "filepathLib \<Rightarrow> string \<Rightarrow> string \<Rightarrow> string \<Rightarrow> typesInfo option \<Rightarrow> string option
     \<Rightarrow> string \<Rightarrow> ast \<Rightarrow> GoAnalyzer \<Rightarrow> GoAnalyzer" where
  "callVisit L callerID recvName recvType typeInfo typePkg filePath n a =
     (case n of
        CallExpr callPos fun args \<Rightarrow>
          processCall L a callerID recvName recvType n typeInfo typePkg filePath
      | _ \<Rightarrow> a)"

definition visitFuncBodyForCalls ::
  "filepathLib \<Rightarrow> GoAnalyzer \<Rightarrow> ast \<Rightarrow> string \<Rightarrow> typesInfo option \<Rightarrow> string option
     \<Rightarrow> GoAnalyzer" where
  "visitFuncBodyForCalls L a fn filePath typeInfo typePkg =
     (case fn of
        FuncDecl fnDoc fnRecv fnName fnParams sig fnBody startPos endPos \<Rightarrow>
          (case fnBody of
             None \<Rightarrow> a
           | Some body \<Rightarrow>
               let (recvType, recvName) =
                     (case fnRecv of Some fs \<Rightarrow> recvLoop fs ([], []) | None \<Rightarrow> ([], []));
                   callerID =
                     (case fnRecv of
                        Some fs \<Rightarrow> getComponentIDForFile L a filePath fnName recvType
                      | None \<Rightarrow> getComponentIDForFile L a filePath fnName [])
               in fold (callVisit L callerID recvName recvType typeInfo typePkg filePath)
                       (preorder body) a)
      | _ \<Rightarrow> a)"

definition funcVisit :: "filepathLib \<Rightarrow> string \<Rightarrow> fileInfo \<Rightarrow> ast \<Rightarrow> GoAnalyzer \<Rightarrow> GoAnalyzer"
  where
  "funcVisit L filePath fi n a =
     (case n of
        FuncDecl fnDoc fnRecv fnName fnParams sig fnBody startPos endPos \<Rightarrow>
          visitFuncBodyForCalls L a n filePath (info fi) (pkg fi)
      | _ \<Rightarrow> a)"

definition collectCalls :: "filepathLib \<Rightarrow> GoAnalyzer \<Rightarrow> string \<Rightarrow> fileInfo \<Rightarrow> GoAnalyzer" where
  "collectCalls L a filePath fi = fold (funcVisit L filePath fi) (preorder (astFile fi)) a"

section \<open>Analyze\<close>

text \<open>
  What \<^verbatim>\<open>Analyze\<close> obtains from outside the program: the module roots found on disk, the
  packages \<^verbatim>\<open>packages.Load\<close> returns for a root, the bytes \<^verbatim>\<open>os.ReadFile\<close> returns for a
  path, and the order in which each of the two \<^verbatim>\<open>range\<close> loops enumerates the keys of
  the map \<^verbatim>\<open>fileInfos\<close> (Go leaves that order open, and it may differ between the loops).
  In a run of the program each of the two lists holds every key of the map once.  The
  passes below take any list and skip a name that is not a key, so what is proved of
  them holds for every order.
\<close>

record package =
  Syntax :: "ast list"
  TypesInfo :: "typesInfo option"
  Types :: "string option"

record world =
  findModuleRoots :: "failure + string list"
  loadPackages :: "string \<Rightarrow> failure + package list"
  ReadFile :: "string \<Rightarrow> failure + string"
  rangeFirst :: "string list"
  rangeSecond :: "string list"

text \<open>The body of the innermost loading loop, for one syntax file of a package.\<close>

definition loadFile ::
  "filepathLib \<Rightarrow> world \<Rightarrow> string \<Rightarrow> package \<Rightarrow> ast \<Rightarrow> (string \<rightharpoonup> fileInfo)
     \<Rightarrow> failure + (string \<rightharpoonup> fileInfo)" where
  "loadFile L W repoAbs p f fileInfos =
     (case f of
        File filePos decls \<Rightarrow>
          if Filename filePos = [] \<or> isTestFile (Filename filePos) then Inr fileInfos
          else let filename = absOrSame L (Filename filePos)
               in if \<not> isPathInRepo L repoAbs filename then Inr fileInfos
                  else if fileInfos filename \<noteq> None then Inr fileInfos
                  else (case ReadFile W filename of
                          Inl readErr \<Rightarrow> Inl readErr
                        | Inr buf \<Rightarrow>
                            Inr (fileInfos(filename \<mapsto>
                                   \<lparr>astFile = f, info = TypesInfo p, pkg = Types p,
                                    content = buf\<rparr>)))
      | _ \<Rightarrow> Inr fileInfos)"

definition loadRoot ::
  "filepathLib \<Rightarrow> world \<Rightarrow> string \<Rightarrow> string \<Rightarrow> (string \<rightharpoonup> fileInfo)
     \<Rightarrow> failure + (string \<rightharpoonup> fileInfo)" where
  "loadRoot L W repoAbs root fileInfos =
     (case loadPackages W root of
        Inl loadErr \<Rightarrow> Inl loadErr
      | Inr pkgs \<Rightarrow>
          forEach (\<lambda>p. forEach (loadFile L W repoAbs p) (Syntax p)) pkgs fileInfos)"

definition loadFileInfos ::
  "filepathLib \<Rightarrow> world \<Rightarrow> GoAnalyzer \<Rightarrow> failure + (string \<rightharpoonup> fileInfo)" where
  "loadFileInfos L W a =
     (case findModuleRoots W of
        Inl err \<Rightarrow> Inl err
      | Inr roots \<Rightarrow>
          let moduleRoots = (if length roots = 0 then [RepoAbs a] else roots)
          in forEach (loadRoot L W (RepoAbs a)) moduleRoots Map.empty)"

definition collectPass ::
  "filepathLib \<Rightarrow> (string \<rightharpoonup> fileInfo) \<Rightarrow> string list \<Rightarrow> GoAnalyzer
     \<Rightarrow> failure + GoAnalyzer" where
  "collectPass L fileInfos order a =
     forEach (\<lambda>filename a'. case fileInfos filename of
                               Some fi \<Rightarrow> collectNodes L a' filename fi
                             | None \<Rightarrow> Inr a') order a"

definition callPass ::
  "filepathLib \<Rightarrow> (string \<rightharpoonup> fileInfo) \<Rightarrow> string list \<Rightarrow> GoAnalyzer \<Rightarrow> GoAnalyzer" where
  "callPass L fileInfos order a =
     fold (\<lambda>filename a'. case fileInfos filename of
                            Some fi \<Rightarrow> collectCalls L a' filename fi
                          | None \<Rightarrow> a') order a"

definition Analyze :: "filepathLib \<Rightarrow> world \<Rightarrow> GoAnalyzer \<Rightarrow> failure + GoAnalyzer" where
  "Analyze L W a =
     (case loadFileInfos L W a of
        Inl err \<Rightarrow> Inl err
      | Inr fileInfos \<Rightarrow>
          (case collectPass L fileInfos (rangeFirst W) a of
             Inl p \<Rightarrow> Inl p
           | Inr a1 \<Rightarrow> Inr (callPass L fileInfos (rangeSecond W) a1)))"

section \<open>Reference definitions and example inputs\<close>

text \<open>
  The identifier as the specification words it: the path relative to the root, without
  its extension, every path separator replaced by a dot, then the enclosing type (if
  any) and the symbol name.
\<close>

definition modulePathSpec :: "string \<Rightarrow> string" where
  "modulePathSpec pathNoExt = map (\<lambda>c. if c = CHR ''/'' then CHR ''.'' else c) pathNoExt"

definition identifierFor ::
  "filepathLib \<Rightarrow> string \<Rightarrow> string \<Rightarrow> string \<Rightarrow> string \<Rightarrow> string" where
  "identifierFor L root filePath symbolName enclosingTypeName =
     (let relPath = relPathOf L root filePath;
          modulePath = modulePathSpec (take (length relPath - length (Ext relPath)) relPath)
      in if enclosingTypeName \<noteq> []
         then modulePath @ ''.'' @ enclosingTypeName @ ''.'' @ symbolName
         else modulePath @ ''.'' @ symbolName)"

text \<open>
  \<open>collected L fps a a'\<close>: the state \<open>a'\<close> is \<open>a\<close> after registering nodes of the files
  \<open>fps\<close>, each carrying the identifier the scheme gives for its own fields.
\<close>

definition collected :: "filepathLib \<Rightarrow> string set \<Rightarrow> GoAnalyzer \<Rightarrow> GoAnalyzer \<Rightarrow> bool" where
  "collected L fps a a' \<longleftrightarrow>
     RepoAbs a' = RepoAbs a \<and> RepoPath a' = RepoPath a \<and>
     Relationships a' = Relationships a \<and>
     (\<exists>new. Nodes a' = Nodes a @ new \<and>
        (\<forall>n\<in>set new. FilePath n \<in> fps \<and>
           getComponentIDForFile L a (FilePath n) (Name n) (ClassName n) = ID n) \<and>
        CollectedNodeIDs a' =
          (\<lambda>k. if k \<in> ID ` set new then Some True else CollectedNodeIDs a k))"

text \<open>
  \<open>edgeStep T\<close>: the step \<open>T\<close> only appends call relationships, and which ones it
  appends depends on nothing but the root and the collected identifiers of the state.
  \<open>bareState\<close> is the state that holds these two and nothing else.
\<close>

definition bareState :: "string \<Rightarrow> (string \<rightharpoonup> bool) \<Rightarrow> GoAnalyzer" where
  "bareState repoAbs ids =
     \<lparr>RepoPath = [], RepoAbs = repoAbs, Nodes = [], Relationships = [],
      CollectedNodeIDs = ids\<rparr>"

definition edgeStep :: "(GoAnalyzer \<Rightarrow> GoAnalyzer) \<Rightarrow> bool" where
  "edgeStep T \<longleftrightarrow>
     (\<exists>E. \<forall>a. T a = a\<lparr>Relationships :=
                          Relationships a @ E (RepoAbs a) (CollectedNodeIDs a)\<rparr>)"

text \<open>
  The path library on clean absolute paths with the target at or below the base: there
  \<^verbatim>\<open>filepath.Rel\<close> returns what follows the base and its separator, and \<^verbatim>\<open>filepath.Abs\<close>
  and \<^verbatim>\<open>filepath.Clean\<close> return the path unchanged.  The examples only use such paths.
\<close>

definition belowRoot :: filepathLib where
  "belowRoot =
     \<lparr>filepath_Rel = (\<lambda>base targ.
          if targ = base then Some ''.''
          else if prefix (base @ ''/'') targ then Some (drop (length base + 1) targ)
          else None),
      filepath_Abs = Some,
      filepath_Clean = (\<lambda>p. p)\<rparr>"

text \<open>The analyzer \<^verbatim>\<open>NewGoAnalyzer("/repo")\<close> returns.\<close>

definition repoAnalyzer :: GoAnalyzer where
  "repoAnalyzer =
     \<lparr>RepoPath = ''/repo'', RepoAbs = ''/repo'', Nodes = [], Relationships = [],
      CollectedNodeIDs = Map.empty\<rparr>"

definition at :: "string \<Rightarrow> int \<Rightarrow> int \<Rightarrow> position" where
  "at name off ln = \<lparr>Filename = name, Offset = off, Line = ln\<rparr>"

text \<open>
  The file of the repository's test \<^verbatim>\<open>TestAnalyzeStructSourceExtraction\<close>: a struct
  declaration under a one-line comment.  The comment begins at byte 17, the name
  \<^verbatim>\<open>MyStruct\<close> (where \<^verbatim>\<open>TypeSpec.Pos()\<close> points) at byte 51, and the declaration ends at 85.
\<close>

definition structSource :: string where
  "structSource =
     ''package testpkg'' @ [CHR 0x0A, CHR 0x0A] @
     ''// MyStruct is a test struct'' @ [CHR 0x0A] @
     ''type MyStruct struct {'' @ [CHR 0x0A, CHR 0x09] @
     ''Field1 string'' @ [CHR 0x0A] @ ''}'' @ [CHR 0x0A]"

definition structDoc :: commentGroup where
  "structDoc =
     \<lparr>cgPosition = at ''/repo/test_struct.go'' 17 3,
      cgList = [LineComment '' MyStruct is a test struct'']\<rparr>"

definition structSpec :: ast where
  "structSpec =
     TypeSpec None ''MyStruct'' [] (StructType [Ident 1 ''string''])
       (at ''/repo/test_struct.go'' 51 4) (at ''/repo/test_struct.go'' 85 6)"

text \<open>
  The docstring as the specification words it: the comment text with the comment
  markers stripped, and trimmed.
\<close>

definition strippedAndTrimmed :: "comment \<Rightarrow> string" where
  "strippedAndTrimmed cm =
     (let body = (case cm of LineComment c \<Rightarrow> c | BlockComment c \<Rightarrow> c)
      in dropWhile isWhitespace (rev (dropWhile isWhitespace (rev body))))"

text \<open>
  The whole file of that test, as the loader hands it to the collection pass, and the
  node the pass registers for it.
\<close>

definition structFile :: ast where
  "structFile =
     File (at ''/repo/test_struct.go'' 0 1)
       [GenDecl token_TYPE (Some structDoc) [structSpec]]"

definition structInfo :: fileInfo where
  "structInfo = \<lparr>astFile = structFile, info = None, pkg = None, content = structSource\<rparr>"

definition structNode :: Node where
  "structNode =
     \<lparr>ID = ''test_struct.MyStruct'', Name = ''MyStruct'', ComponentType = ''class'',
      FilePath = ''/repo/test_struct.go'', RelativePath = ''test_struct.go'', DependsOn = [],
      SourceCode =
        ''// MyStruct is a test struct'' @ [CHR 0x0A] @
        ''type MyStruct struct {'' @ [CHR 0x0A, CHR 0x09] @
        ''Field1 string'' @ [CHR 0x0A] @ ''}'',
      StartLine = 4, EndLine = 6,
      HasDocstring = True, Docstring = ''MyStruct is a test struct'' @ [CHR 0x0A],
      Parameters = [], NodeType = ''struct'', BaseClasses = [], ClassName = [],
      DisplayName = ''struct MyStruct'', ComponentID = ''test_struct.MyStruct''\<rparr>"

text \<open>
  When the type-informed path of \<^verbatim>\<open>processCall\<close> leaves a call to the heuristic switch:
  there are no type facts, or no package, or \<^verbatim>\<open>resolveCallWithTypes\<close> returns \<^verbatim>\<open>ok = false\<close>.
\<close>

definition typePathDeclines ::
  "filepathLib \<Rightarrow> GoAnalyzer \<Rightarrow> ast \<Rightarrow> typesInfo option \<Rightarrow> string option \<Rightarrow> bool" where
  "typePathDeclines L a call typeInfo typePkg =
     (case typeInfo of
        None \<Rightarrow> True
      | Some ti \<Rightarrow> typePkg = None \<or> \<not> snd (snd (resolveCallWithTypes L a call ti)))"




text \<open>
  \<open>declared cid name fp s\<close>: the state \<open>s\<close> holds the identifier \<open>cid\<close> and a node with
  this identifier for a free function or type \<open>name\<close> of the file \<open>fp\<close>.
\<close>

definition declared :: "string \<Rightarrow> string \<Rightarrow> string \<Rightarrow> GoAnalyzer \<Rightarrow> bool" where
  "declared cid name fp s \<longleftrightarrow>
     CollectedNodeIDs s cid = Some True \<and>
     (\<exists>n\<in>set (Nodes s). ID n = cid \<and> Name n = name \<and> FilePath n = fp \<and> ClassName n = [])"

text \<open>
  Test files: a syntax file is a test file when its name ends in \<^verbatim>\<open>_test.go\<close>;
  \<open>dropTests W\<close> is the world \<open>W\<close> with the test files removed from every package, and
  \<open>noTestFiles m\<close> says that no file of the map \<open>m\<close> is a test file.
\<close>

definition isTestSyntax :: "ast \<Rightarrow> bool" where
  "isTestSyntax f = (case f of File filePos decls \<Rightarrow> isTestFile (Filename filePos) | _ \<Rightarrow> False)"

definition dropTests :: "world \<Rightarrow> world" where
  "dropTests W =
     W\<lparr>loadPackages := (\<lambda>root.
          case loadPackages W root of
            Inl loadErr \<Rightarrow> Inl loadErr
          | Inr pkgs \<Rightarrow>
              Inr (map (\<lambda>p. p\<lparr>Syntax := filter (\<lambda>f. \<not> isTestSyntax f) (Syntax p)\<rparr>) pkgs))\<rparr>"

definition noTestFiles :: "(string \<rightharpoonup> fileInfo) \<Rightarrow> bool" where
  "noTestFiles m \<longleftrightarrow> (\<forall>k fi. m k = Some fi \<longrightarrow> \<not> isTestSyntax (astFile fi))"

text \<open>
  A module of one package under \<^verbatim>\<open>/repo\<close>: the file \<^verbatim>\<open>a.go\<close>, in which \<^verbatim>\<open>f\<close> calls \<^verbatim>\<open>g\<close>, and
  the test file \<^verbatim>\<open>a_test.go\<close>; then what \<^verbatim>\<open>Analyze\<close> makes of it: the two nodes, the map of
  loaded files, the state after the collection pass, the one call relationship, and
  the final state.
\<close>

definition tinySource :: string where
  "tinySource =
     ''package p'' @ [CHR 0x0A] @ ''func f() { g() }'' @ [CHR 0x0A] @ ''func g() {}'' @ [CHR 0x0A]"

definition tinyBody :: ast where
  "tinyBody = Other [Other [CallExpr (at ''/repo/a.go'' 21 2) (Ident 1 ''g'') []]]"

definition tinyDecls :: "ast list" where
  "tinyDecls =
     [FuncDecl None None ''f'' (Some []) [] (Some tinyBody)
        (at ''/repo/a.go'' 10 2) (at ''/repo/a.go'' 26 2),
      FuncDecl None None ''g'' (Some []) [] (Some (Other []))
        (at ''/repo/a.go'' 27 3) (at ''/repo/a.go'' 38 3)]"

definition tinyFile :: ast where
  "tinyFile = File (at ''/repo/a.go'' 0 1) tinyDecls"

definition tinyTestFile :: ast where
  "tinyTestFile =
     File (at ''/repo/a_test.go'' 0 1)
       [FuncDecl None None ''g'' (Some []) [] (Some (Other []))
          (at ''/repo/a_test.go'' 10 2) (at ''/repo/a_test.go'' 21 2)]"

definition tinyWorld :: world where
  "tinyWorld =
     \<lparr>findModuleRoots = Inr [''/repo''],
      loadPackages = (\<lambda>root.
         Inr [\<lparr>Syntax = [tinyFile, tinyTestFile], TypesInfo = None, Types = None\<rparr>]),
      ReadFile = (\<lambda>path. if path = ''/repo/a.go'' then Inr tinySource else Inl ReadError),
      rangeFirst = [''/repo/a.go''],
      rangeSecond = [''/repo/a.go'']\<rparr>"

definition tinyNodeF :: Node where
  "tinyNodeF =
     \<lparr>ID = ''a.f'', Name = ''f'', ComponentType = ''function'',
      FilePath = ''/repo/a.go'', RelativePath = ''a.go'', DependsOn = [],
      SourceCode = ''func f() { g() }'', StartLine = 2, EndLine = 2,
      HasDocstring = False, Docstring = [], Parameters = [],
      NodeType = ''function'', BaseClasses = [], ClassName = [],
      DisplayName = ''func f'', ComponentID = ''a.f''\<rparr>"

definition tinyNodeG :: Node where
  "tinyNodeG =
     \<lparr>ID = ''a.g'', Name = ''g'', ComponentType = ''function'',
      FilePath = ''/repo/a.go'', RelativePath = ''a.go'', DependsOn = [],
      SourceCode = ''func g() {}'', StartLine = 3, EndLine = 3,
      HasDocstring = False, Docstring = [], Parameters = [],
      NodeType = ''function'', BaseClasses = [], ClassName = [],
      DisplayName = ''func g'', ComponentID = ''a.g''\<rparr>"

definition tinyInfo :: fileInfo where
  "tinyInfo = \<lparr>astFile = tinyFile, info = None, pkg = None, content = tinySource\<rparr>"

definition tinyInfos :: "string \<rightharpoonup> fileInfo" where
  "tinyInfos = [''/repo/a.go'' \<mapsto> tinyInfo]"

definition tinyCollected :: GoAnalyzer where
  "tinyCollected =
     \<lparr>RepoPath = ''/repo'', RepoAbs = ''/repo'', Nodes = [tinyNodeF, tinyNodeG],
      Relationships = [],
      CollectedNodeIDs = [''a.f'' \<mapsto> True, ''a.g'' \<mapsto> True]\<rparr>"

definition tinyEdge :: CallRelationship where
  "tinyEdge =
     \<lparr>Caller = ''a.f'', Callee = ''a.g'', CallLine = 2, IsResolved = True,
      RelationshipType = ''calls''\<rparr>"

definition tinyResult :: GoAnalyzer where
  "tinyResult = tinyCollected\<lparr>Relationships := [tinyEdge]\<rparr>"

text \<open>
  A file that declares \<^verbatim>\<open>func init() {}\<close> twice, which Go allows, and the state after its
  collection pass.
\<close>

definition initSource :: string where
  "initSource =
     ''package p'' @ [CHR 0x0A, CHR 0x0A] @ ''func init() {}'' @ [CHR 0x0A, CHR 0x0A] @
     ''func init() {}'' @ [CHR 0x0A]"

definition initDecls :: "ast list" where
  "initDecls =
     [FuncDecl None None ''init'' (Some []) [] (Some (Other []))
        (at ''/repo/a.go'' 11 3) (at ''/repo/a.go'' 25 3),
      FuncDecl None None ''init'' (Some []) [] (Some (Other []))
        (at ''/repo/a.go'' 27 5) (at ''/repo/a.go'' 41 5)]"

definition initFile :: ast where
  "initFile = File (at ''/repo/a.go'' 0 1) initDecls"

definition initWorld :: world where
  "initWorld =
     \<lparr>findModuleRoots = Inr [''/repo''],
      loadPackages = (\<lambda>root.
         Inr [\<lparr>Syntax = [initFile], TypesInfo = None, Types = None\<rparr>]),
      ReadFile = (\<lambda>path. if path = ''/repo/a.go'' then Inr initSource else Inl ReadError),
      rangeFirst = [''/repo/a.go''],
      rangeSecond = [''/repo/a.go'']\<rparr>"

definition initNode :: "int \<Rightarrow> Node" where
  "initNode line =
     \<lparr>ID = ''a.init'', Name = ''init'', ComponentType = ''function'',
      FilePath = ''/repo/a.go'', RelativePath = ''a.go'', DependsOn = [],
      SourceCode = ''func init() {}'', StartLine = line, EndLine = line,
      HasDocstring = False, Docstring = [], Parameters = [],
      NodeType = ''function'', BaseClasses = [], ClassName = [],
      DisplayName = ''func init'', ComponentID = ''a.init''\<rparr>"

definition initInfo :: fileInfo where
  "initInfo = \<lparr>astFile = initFile, info = None, pkg = None, content = initSource\<rparr>"

definition initInfos :: "string \<rightharpoonup> fileInfo" where
  "initInfos = [''/repo/a.go'' \<mapsto> initInfo]"

definition initCollected :: GoAnalyzer where
  "initCollected =
     \<lparr>RepoPath = ''/repo'', RepoAbs = ''/repo'', Nodes = [initNode 3, initNode 5],
      Relationships = [],
      CollectedNodeIDs = [''a.init'' \<mapsto> True]\<rparr>"
















section \<open>Properties of the identifier scheme\<close>

lemma of_char_slash: "(of_char c = (47::nat)) = (c = CHR ''/'')"
proof -
  have "(of_char (CHR ''/'') :: nat) = 47" by simp
  then show ?thesis by (metis of_char_eq_iff)
qed

lemma rangeRunes_ascii:
  "\<forall>c\<in>set s. (of_char c :: nat) < 128 \<Longrightarrow> rangeRunes s = map of_char s"
proof (induction s)
  case Nil
  then show ?case by (simp add: rangeRunes.simps)
next
  case (Cons c s)
  then show ?case by (subst rangeRunes.simps) (simp add: Let_def)
qed

lemma modulePathLoop_ascii:
  "\<forall>c\<in>set s. (of_char c :: nat) < 128 \<Longrightarrow>
   modulePathLoop (map of_char s) acc = acc @ modulePathSpec s"
proof (induction s arbitrary: acc)
  case Nil
  then show ?case by (simp add: modulePathSpec_def)
next
  case (Cons c s)
  have sep: "IsPathSeparator (uint8 (of_char c)) = (c = CHR ''/'')"
    using of_char_slash [of c] by (simp add: IsPathSeparator_def PathSeparator_def uint8_def)
  have enc: "runeToString (of_char c) = [c]" using Cons.prems by (simp add: runeToString_def)
  show ?case using Cons sep enc by (simp add: modulePathSpec_def)
qed

text \<open>
  On a relative path of ASCII bytes the code computes the identifier of the
  specification.
\<close>

lemma getComponentIDForFile_ascii:
  assumes "\<forall>c\<in>set (relPathOf L (RepoAbs a) filePath). (of_char c :: nat) < 128"
  shows "getComponentIDForFile L a filePath name receiverType
           = identifierFor L (RepoAbs a) filePath name receiverType"
proof -
  let ?rel = "relPathOf L (RepoAbs a) filePath"
  let ?p = "take (length ?rel - length (Ext ?rel)) ?rel"
  have "\<forall>c\<in>set ?p. (of_char c :: nat) < 128" using assms by (meson in_set_takeD)
  then have "modulePathLoop (rangeRunes ?p) [] = modulePathSpec ?p"
    by (simp add: rangeRunes_ascii modulePathLoop_ascii)
  then show ?thesis by (simp add: getComponentIDForFile_def identifierFor_def Let_def)
qed

text \<open>
  C2 (identifier scheme definition).  The claim: the identifier is the relative path
  without its extension, every path separator replaced by a dot, followed by the
  enclosing type (when there is one) and the symbol name.  The loop tests
  \<^verbatim>\<open>os.IsPathSeparator(uint8(c))\<close> on a rune \<open>c\<close>, so a rune whose low byte is \<^verbatim>\<open>0x2F\<close> is
  replaced as well: for a file in \<^verbatim>\<open>/repo\<close> named by the Cyrillic capital letter Ya
  (U+042F, bytes \<^verbatim>\<open>D0 AF\<close>) with the extension \<^verbatim>\<open>.go\<close>, and the function \<^verbatim>\<open>F\<close>, the code
  returns \<^verbatim>\<open>..F\<close>, where the scheme gives the letter, a dot and \<^verbatim>\<open>F\<close>.
\<close>

theorem getComponentIDForFile_low_byte_slash:
  "getComponentIDForFile belowRoot repoAnalyzer
      (''/repo/'' @ [CHR 0xD0, CHR 0xAF] @ ''.go'') ''F'' [] = ''..F''
   \<and> identifierFor belowRoot (RepoAbs repoAnalyzer)
      (''/repo/'' @ [CHR 0xD0, CHR 0xAF] @ ''.go'') ''F'' [] = [CHR 0xD0, CHR 0xAF] @ ''.F''"
  by code_simp

section \<open>Properties of source capture\<close>

lemma captureSource_Inr:
  "captureSource buf s e =
     Inr (if 0 \<le> s \<and> e \<le> int (length buf) \<and> s \<le> e
          then take (nat (e - s)) (drop (nat s) buf) else [])"
  by (simp add: captureSource_def sliceBytes_def)

section \<open>The collection pass only registers nodes\<close>

lemma getComponentIDForFile_cong:
  "RepoAbs a = RepoAbs b \<Longrightarrow> getComponentIDForFile L a = getComponentIDForFile L b"
  by (intro ext) (simp add: getComponentIDForFile_def)

lemma typeSpecNode_fields [simp]:
  "ID (typeSpecNode L a nm nt sp ep doc fp src) = getComponentIDForFile L a fp nm []"
  "Name (typeSpecNode L a nm nt sp ep doc fp src) = nm"
  "ClassName (typeSpecNode L a nm nt sp ep doc fp src) = []"
  "FilePath (typeSpecNode L a nm nt sp ep doc fp src) = fp"
  "SourceCode (typeSpecNode L a nm nt sp ep doc fp src) = src"
  by (simp_all add: typeSpecNode_def Let_def split: option.splits)

lemma funcDeclNode_fields [simp]:
  "ID (funcDeclNode L a d recv nm ps sp ep fp src) =
     getComponentIDForFile L a fp nm (case recv of None \<Rightarrow> [] | Some fs \<Rightarrow> recvTypeLoop fs [])"
  "Name (funcDeclNode L a d recv nm ps sp ep fp src) = nm"
  "ClassName (funcDeclNode L a d recv nm ps sp ep fp src) =
     (case recv of None \<Rightarrow> [] | Some fs \<Rightarrow> recvTypeLoop fs [])"
  "FilePath (funcDeclNode L a d recv nm ps sp ep fp src) = fp"
  "SourceCode (funcDeclNode L a d recv nm ps sp ep fp src) = src"
  by (simp_all add: funcDeclNode_def Let_def split: option.splits)

lemma visitTypeSpec_cases:
  "visitTypeSpec L a ts gd fp buf = Inr a \<or>
   (\<exists>node. visitTypeSpec L a ts gd fp buf = Inr (registerNode a (ID node) node)
      \<and> FilePath node = fp
      \<and> getComponentIDForFile L a fp (Name node) (ClassName node) = ID node)"
proof (cases ts)
  case (TypeSpec d nm tps t sp ep)
  show ?thesis
  proof (cases "typeSpecKind t")
    case None
    then show ?thesis using TypeSpec by (simp add: visitTypeSpec_def)
  next
    case (Some nt)
    let ?doc = "case d of None \<Rightarrow> gd | Some c \<Rightarrow> Some c"
    let ?s = "case ?doc of Some c \<Rightarrow> Offset (cgPosition c) | None \<Rightarrow> Offset sp"
    obtain src where src: "captureSource buf ?s (Offset ep) = Inr src"
      by (simp add: captureSource_Inr)
    let ?n = "typeSpecNode L a nm nt sp ep ?doc fp src"
    have "visitTypeSpec L a ts gd fp buf = Inr (registerNode a (ID ?n) ?n)"
      using TypeSpec Some src by (simp add: visitTypeSpec_def Let_def)
    then show ?thesis by (intro disjI2 exI [of _ ?n]) simp
  qed
qed (simp_all add: visitTypeSpec_def)

lemma visitFuncDecl_cases:
  "visitFuncDecl L a fn fp buf = Inr a \<or>
   (\<exists>node. visitFuncDecl L a fn fp buf = Inr (registerNode a (ID node) node)
      \<and> FilePath node = fp
      \<and> getComponentIDForFile L a fp (Name node) (ClassName node) = ID node)"
proof (cases fn)
  case (FuncDecl d recv nm ps sg b sp ep)
  let ?s = "case d of Some c \<Rightarrow> Offset (cgPosition c) | None \<Rightarrow> Offset sp"
  obtain src where src: "captureSource buf ?s (Offset ep) = Inr src"
    by (simp add: captureSource_Inr)
  let ?n = "funcDeclNode L a d recv nm ps sp ep fp src"
  have "visitFuncDecl L a fn fp buf = Inr (registerNode a (ID ?n) ?n)"
    using FuncDecl src by (simp add: visitFuncDecl_def Let_def split: option.splits)
  then show ?thesis by (intro disjI2 exI [of _ ?n]) simp
qed (simp_all add: visitFuncDecl_def)

lemma collected_refl: "collected L fps a a"
  unfolding collected_def by (intro conjI exI [of _ "[]"]) auto

lemma collected_register:
  assumes "FilePath n \<in> fps" "getComponentIDForFile L a (FilePath n) (Name n) (ClassName n) = ID n"
  shows "collected L fps a (registerNode a (ID n) n)"
  unfolding collected_def using assms
  by (intro conjI exI [of _ "[n]"]) (auto simp: registerNode_def fun_eq_iff)

lemma collected_trans:
  assumes "collected L fps a b" "collected L fps b c"
  shows "collected L fps a c"
proof -
  from assms(1) obtain n1 where 1: "RepoAbs b = RepoAbs a" "RepoPath b = RepoPath a"
      "Relationships b = Relationships a" "Nodes b = Nodes a @ n1"
      "\<forall>n\<in>set n1. FilePath n \<in> fps \<and> getComponentIDForFile L a (FilePath n) (Name n) (ClassName n) = ID n"
      "CollectedNodeIDs b = (\<lambda>k. if k \<in> ID ` set n1 then Some True else CollectedNodeIDs a k)"
    unfolding collected_def by blast
  from assms(2) obtain n2 where 2: "RepoAbs c = RepoAbs b" "RepoPath c = RepoPath b"
      "Relationships c = Relationships b" "Nodes c = Nodes b @ n2"
      "\<forall>n\<in>set n2. FilePath n \<in> fps \<and> getComponentIDForFile L b (FilePath n) (Name n) (ClassName n) = ID n"
      "CollectedNodeIDs c = (\<lambda>k. if k \<in> ID ` set n2 then Some True else CollectedNodeIDs b k)"
    unfolding collected_def by blast
  have cong: "getComponentIDForFile L b = getComponentIDForFile L a"
    using 1(1) by (rule getComponentIDForFile_cong)
  show ?thesis
    unfolding collected_def
  proof (intro conjI exI [of _ "n1 @ n2"])
    show "CollectedNodeIDs c =
          (\<lambda>k. if k \<in> ID ` set (n1 @ n2) then Some True else CollectedNodeIDs a k)"
      using 1(6) 2(6) by (auto simp: fun_eq_iff)
  qed (use 1 2 cong in auto)
qed

lemma collected_mono: "collected L fps a b \<Longrightarrow> fps \<subseteq> fps' \<Longrightarrow> collected L fps' a b"
  unfolding collected_def by blast

lemma forEach_collected:
  assumes "\<And>x s s'. x \<in> set xs \<Longrightarrow> body x s = Inr s' \<Longrightarrow> collected L fps s s'"
    and "forEach body xs a = Inr a'"
  shows "collected L fps a a'"
  using assms
proof (induction xs arbitrary: a)
  case Nil
  then show ?case by (simp add: collected_refl)
next
  case (Cons x xs)
  from Cons.prems(2) obtain s where s: "body x a = Inr s" "forEach body xs s = Inr a'"
    by (auto split: sum.splits)
  have "collected L fps a s" using Cons.prems(1) [of x a s] s(1) by simp
  moreover have "collected L fps s a'"
  proof (rule Cons.IH)
    show "forEach body xs s = Inr a'" by (rule s(2))
  next
    fix y t t'
    assume "y \<in> set xs" "body y t = Inr t'"
    then show "collected L fps t t'" using Cons.prems(1) [of y t t'] by simp
  qed
  ultimately show ?case by (rule collected_trans)
qed

lemma forEach_total:
  assumes "\<And>x s. x \<in> set xs \<Longrightarrow> \<exists>s'. body x s = Inr s'"
  shows "\<exists>a'. forEach body xs a = Inr a'"
  using assms
proof (induction xs arbitrary: a)
  case Nil
  then show ?case by simp
next
  case (Cons x xs)
  obtain s where "body x a = Inr s" using Cons.prems by force
  then show ?case using Cons.IH [of s] Cons.prems by simp
qed

lemma visitTypeSpec_collected:
  "visitTypeSpec L a ts gd fp buf = Inr a' \<Longrightarrow> collected L {fp} a a'"
  using visitTypeSpec_cases [of L a ts gd fp buf]
  by (auto simp: collected_refl intro!: collected_register)

lemma visitFuncDecl_collected:
  "visitFuncDecl L a fn fp buf = Inr a' \<Longrightarrow> collected L {fp} a a'"
  using visitFuncDecl_cases [of L a fn fp buf]
  by (auto simp: collected_refl intro!: collected_register)

lemma visitTypeSpec_total: "\<exists>a'. visitTypeSpec L a ts gd fp buf = Inr a'"
  using visitTypeSpec_cases [of L a ts gd fp buf] by auto

lemma visitFuncDecl_total: "\<exists>a'. visitFuncDecl L a fn fp buf = Inr a'"
  using visitFuncDecl_cases [of L a fn fp buf] by auto

lemma collectVisit_collected:
  assumes "collectVisit L fp buf n a = Inr a'"
  shows "collected L {fp} a a'"
proof (cases n)
  case (GenDecl tok doc specs)
  show ?thesis
  proof (cases "tok = token_TYPE")
    case True
    then have "forEach (\<lambda>spec s. visitTypeSpec L s spec doc fp buf) specs a = Inr a'"
      using assms GenDecl by (simp add: collectVisit_def)
    then show ?thesis
      by (rule forEach_collected [rotated]) (rule visitTypeSpec_collected)
  next
    case False
    then show ?thesis using assms GenDecl by (simp add: collectVisit_def collected_refl)
  qed
next
  case (FuncDecl d r nm ps sg b sp ep)
  then show ?thesis using assms by (simp add: collectVisit_def visitFuncDecl_collected)
qed (use assms in \<open>auto simp: collectVisit_def collected_refl\<close>)

lemma collectVisit_total: "\<exists>a'. collectVisit L fp buf n a = Inr a'"
proof (cases n)
  case (GenDecl tok doc specs)
  then show ?thesis
    using forEach_total [of specs "\<lambda>spec s. visitTypeSpec L s spec doc fp buf" a]
    by (auto simp: collectVisit_def visitTypeSpec_total)
next
  case (FuncDecl d r nm ps sg b sp ep)
  then show ?thesis by (simp add: collectVisit_def visitFuncDecl_total)
qed (auto simp: collectVisit_def)

lemma collectNodes_collected:
  "collectNodes L a fp fi = Inr a' \<Longrightarrow> collected L {fp} a a'"
  unfolding collectNodes_def
  by (rule forEach_collected [rotated]) (auto intro: collectVisit_collected)

lemma collectNodes_total: "\<exists>a'. collectNodes L a fp fi = Inr a'"
  unfolding collectNodes_def by (rule forEach_total) (rule collectVisit_total)

lemma collectPass_collected:
  assumes "collectPass L fis order a = Inr a'"
  shows "collected L (set order \<inter> dom fis) a a'"
  using assms unfolding collectPass_def
proof (rule forEach_collected [rotated])
  fix x s s'
  assume "x \<in> set order"
    and "(case fis x of None \<Rightarrow> Inr s | Some fi \<Rightarrow> collectNodes L s x fi) = Inr s'"
  then show "collected L (set order \<inter> dom fis) s s'"
    by (auto split: option.splits simp: collected_refl
        intro: collected_mono [OF collectNodes_collected])
qed

lemma collectPass_total: "\<exists>a'. collectPass L fis order a = Inr a'"
  unfolding collectPass_def
  by (rule forEach_total) (auto split: option.splits simp: collectNodes_total)

section \<open>The resolution pass only appends call relationships\<close>

lemma bareState_fields [simp]:
  "RepoAbs (bareState r c) = r" "CollectedNodeIDs (bareState r c) = c"
  "Relationships (bareState r c) = []" "Nodes (bareState r c) = []"
  by (simp_all add: bareState_def)

lemma getComponentIDForPos_cong:
  assumes "RepoAbs a = RepoAbs b"
  shows "getComponentIDForPos L a pos n r = getComponentIDForPos L b pos n r"
  unfolding getComponentIDForPos_def getComponentIDForFile_def assms ..

lemma isPosInRepo_cong:
  assumes "RepoAbs a = RepoAbs b"
  shows "isPosInRepo L a pos = isPosInRepo L b pos"
  unfolding isPosInRepo_def assms ..

lemma resolveFunc_cong:
  assumes "RepoAbs a = RepoAbs b" "CollectedNodeIDs a = CollectedNodeIDs b"
  shows "resolveFunc L a pos n r fb = resolveFunc L b pos n r fb"
  unfolding resolveFunc_def getComponentIDForPos_cong [OF assms(1)]
    isPosInRepo_cong [OF assms(1)] assms(2) ..

lemma resolveCallWithTypes_cong:
  assumes "RepoAbs a = RepoAbs b" "CollectedNodeIDs a = CollectedNodeIDs b"
  shows "resolveCallWithTypes L a call ti = resolveCallWithTypes L b call ti"
  unfolding resolveCallWithTypes_def resolveFunc_cong [OF assms] ..

lemma heuristicCallee_cong:
  assumes "RepoAbs a = RepoAbs b"
  shows "heuristicCallee L a rn rt f fp = heuristicCallee L b rn rt f fp"
  unfolding heuristicCallee_def getComponentIDForFile_cong [OF assms] ..


text \<open>What a call appends, as a function of the root and the identifiers alone.\<close>

lemma processCall_unfold:
  "processCall L a cid rn rt (CallExpr p f args) ti tp fp =
     (case (case ti of
              Some ti' \<Rightarrow> if tp \<noteq> None
                          then Some (resolveCallWithTypes L a (CallExpr p f args) ti')
                          else None
            | None \<Rightarrow> None) of
        Some (calleeName, resolved, True) \<Rightarrow>
          if calleeName \<noteq> [] then appendCall a cid calleeName (Line p) resolved else a
      | _ \<Rightarrow>
          if heuristicCallee L a rn rt f fp \<noteq> []
          then appendCall a cid (heuristicCallee L a rn rt f fp) (Line p)
                 (lookupBool (CollectedNodeIDs a) (heuristicCallee L a rn rt f fp))
          else a)"
  by (simp add: processCall_def Let_def)

lemma processCall_edges:
  "processCall L a cid rn rt call ti tp fp =
     a\<lparr>Relationships := Relationships a @
          Relationships (processCall L (bareState (RepoAbs a) (CollectedNodeIDs a))
                           cid rn rt call ti tp fp)\<rparr>"
proof (cases call)
  case (CallExpr p f args)
  let ?b = "bareState (RepoAbs a) (CollectedNodeIDs a)"
  define t where "t = (case ti of
              Some ti' \<Rightarrow> if tp \<noteq> None
                          then Some (resolveCallWithTypes L a (CallExpr p f args) ti')
                          else None
            | None \<Rightarrow> None)"
  define h where "h = heuristicCallee L a rn rt f fp"
  have 1: "resolveCallWithTypes L ?b (CallExpr p f args) ti' =
           resolveCallWithTypes L a (CallExpr p f args) ti'" for ti'
    by (rule resolveCallWithTypes_cong) simp_all
  have 2: "heuristicCallee L ?b rn rt f fp = h"
    unfolding h_def by (rule heuristicCallee_cong) simp
  have pa: "processCall L a cid rn rt call ti tp fp =
     (case t of
        Some (calleeName, resolved, True) \<Rightarrow>
          if calleeName \<noteq> [] then appendCall a cid calleeName (Line p) resolved else a
      | _ \<Rightarrow> if h \<noteq> []
             then appendCall a cid h (Line p) (lookupBool (CollectedNodeIDs a) h) else a)"
    unfolding CallExpr processCall_unfold t_def h_def ..
  have pb: "processCall L ?b cid rn rt call ti tp fp =
     (case t of
        Some (calleeName, resolved, True) \<Rightarrow>
          if calleeName \<noteq> [] then appendCall ?b cid calleeName (Line p) resolved else ?b
      | _ \<Rightarrow> if h \<noteq> []
             then appendCall ?b cid h (Line p) (lookupBool (CollectedNodeIDs ?b) h) else ?b)"
    unfolding CallExpr processCall_unfold 1 2 t_def ..
  show ?thesis
  proof (cases t)
    case None
    then show ?thesis by (simp add: pa pb appendCall_def)
  next
    case (Some tr)
    obtain c r ok where tr: "tr = (c, r, ok)" by (cases tr)
    show ?thesis using Some tr by (cases ok) (simp_all add: pa pb appendCall_def)
  qed
qed (simp_all add: processCall_def)

lemma edgeStep_I:
  "(\<And>a. T a = a\<lparr>Relationships := Relationships a @ E (RepoAbs a) (CollectedNodeIDs a)\<rparr>)
   \<Longrightarrow> edgeStep T"
  unfolding edgeStep_def by blast

lemma edgeStep_id: "edgeStep (\<lambda>a. a)"
  by (rule edgeStep_I [where E = "\<lambda>r c. []"]) simp

lemma edgeStep_comp:
  assumes "edgeStep T1" "edgeStep T2"
  shows "edgeStep (\<lambda>a. T2 (T1 a))"
proof -
  from assms(1) obtain E1 where
    1: "\<And>a. T1 a = a\<lparr>Relationships := Relationships a @ E1 (RepoAbs a) (CollectedNodeIDs a)\<rparr>"
    unfolding edgeStep_def by blast
  from assms(2) obtain E2 where
    2: "\<And>a. T2 a = a\<lparr>Relationships := Relationships a @ E2 (RepoAbs a) (CollectedNodeIDs a)\<rparr>"
    unfolding edgeStep_def by blast
  show ?thesis
    by (rule edgeStep_I [where E = "\<lambda>r c. E1 r c @ E2 r c"]) (simp add: 1 2)
qed

lemma edgeStep_fold:
  assumes "\<And>x. x \<in> set xs \<Longrightarrow> edgeStep (f x)"
  shows "edgeStep (fold f xs)"
  using assms
proof (induction xs)
  case Nil
  then show ?case using edgeStep_id by (simp add: id_def)
next
  case (Cons x xs)
  have "edgeStep (\<lambda>a. fold f xs (f x a))"
    by (rule edgeStep_comp) (simp_all add: Cons)
  then show ?case by (simp add: comp_def)
qed

lemma edgeStep_frame:
  assumes "edgeStep T"
  shows "RepoAbs (T a) = RepoAbs a" "CollectedNodeIDs (T a) = CollectedNodeIDs a"
        "Nodes (T a) = Nodes a" "RepoPath (T a) = RepoPath a"
proof -
  from assms obtain E where
    "\<And>a. T a = a\<lparr>Relationships := Relationships a @ E (RepoAbs a) (CollectedNodeIDs a)\<rparr>"
    unfolding edgeStep_def by blast
  then have e: "T a = a\<lparr>Relationships := Relationships a @ E (RepoAbs a) (CollectedNodeIDs a)\<rparr>" .
  show "RepoAbs (T a) = RepoAbs a" "CollectedNodeIDs (T a) = CollectedNodeIDs a"
        "Nodes (T a) = Nodes a" "RepoPath (T a) = RepoPath a"
    by (simp_all add: e)
qed

text \<open>The relationships a step appends are those it gives on the state without any.\<close>

lemma edgeStep_fresh:
  assumes "edgeStep T"
  shows "T a = a\<lparr>Relationships := Relationships a @
                    Relationships (T (a\<lparr>Relationships := []\<rparr>))\<rparr>"
proof -
  from assms obtain E where
    e: "\<And>a. T a = a\<lparr>Relationships := Relationships a @ E (RepoAbs a) (CollectedNodeIDs a)\<rparr>"
    unfolding edgeStep_def by blast
  have "Relationships (T (a\<lparr>Relationships := []\<rparr>)) = E (RepoAbs a) (CollectedNodeIDs a)"
    by (simp add: e [of "a\<lparr>Relationships := []\<rparr>"])
  then show ?thesis using e [of a] by simp
qed

lemma processCall_edgeStep:
  "edgeStep (\<lambda>a. processCall L a cid rn rt call ti tp fp)"
  by (rule edgeStep_I
        [where E = "\<lambda>r c. Relationships (processCall L (bareState r c) cid rn rt call ti tp fp)"])
     (rule processCall_edges)

lemma callVisit_edgeStep: "edgeStep (callVisit L cid rn rt ti tp fp n)"
proof (cases n)
  case (CallExpr p f args)
  have "callVisit L cid rn rt ti tp fp n = (\<lambda>a. processCall L a cid rn rt n ti tp fp)"
    by (intro ext) (simp add: callVisit_def CallExpr)
  then show ?thesis by (simp add: processCall_edgeStep)
qed (simp_all add: callVisit_def [abs_def] edgeStep_id)

lemma edgeStep_bare:
  assumes "edgeStep T"
  shows "T a = a\<lparr>Relationships := Relationships a @
                    Relationships (T (bareState (RepoAbs a) (CollectedNodeIDs a)))\<rparr>"
proof -
  from assms obtain E where
    e: "\<And>a. T a = a\<lparr>Relationships := Relationships a @ E (RepoAbs a) (CollectedNodeIDs a)\<rparr>"
    unfolding edgeStep_def by blast
  have "Relationships (T (bareState (RepoAbs a) (CollectedNodeIDs a)))
          = E (RepoAbs a) (CollectedNodeIDs a)"
    by (simp add: e [of "bareState (RepoAbs a) (CollectedNodeIDs a)"])
  then show ?thesis using e [of a] by simp
qed

lemma visitFuncBodyForCalls_unfold:
  "visitFuncBodyForCalls L a (FuncDecl d recv nm ps sg (Some body) sp ep) fp ti tp =
     fold (callVisit L
             (case recv of
                Some fs \<Rightarrow> getComponentIDForFile L a fp nm (fst (recvLoop fs ([], [])))
              | None \<Rightarrow> getComponentIDForFile L a fp nm [])
             (case recv of Some fs \<Rightarrow> snd (recvLoop fs ([], [])) | None \<Rightarrow> [])
             (case recv of Some fs \<Rightarrow> fst (recvLoop fs ([], [])) | None \<Rightarrow> [])
             ti tp fp)
          (preorder body) a"
  by (cases recv) (simp_all add: visitFuncBodyForCalls_def Let_def split: prod.splits)

lemma visitFuncBodyForCalls_edgeStep:
  "edgeStep (\<lambda>a. visitFuncBodyForCalls L a fn fp ti tp)"
proof (cases fn)
  case (FuncDecl d recv nm ps sg bodyOpt sp ep)
  show ?thesis
  proof (cases bodyOpt)
    case None
    then have "(\<lambda>a. visitFuncBodyForCalls L a fn fp ti tp) = (\<lambda>a. a)"
      using FuncDecl by (intro ext) (simp add: visitFuncBodyForCalls_def)
    then show ?thesis by (simp add: edgeStep_id)
  next
    case (Some body)
    let ?cid = "\<lambda>a. case recv of
                Some fs \<Rightarrow> getComponentIDForFile L a fp nm (fst (recvLoop fs ([], [])))
              | None \<Rightarrow> getComponentIDForFile L a fp nm []"
    let ?F = "\<lambda>cid. fold (callVisit L cid
             (case recv of Some fs \<Rightarrow> snd (recvLoop fs ([], [])) | None \<Rightarrow> [])
             (case recv of Some fs \<Rightarrow> fst (recvLoop fs ([], [])) | None \<Rightarrow> [])
             ti tp fp) (preorder body)"
    have F: "edgeStep (?F cid)" for cid
      by (rule edgeStep_fold) (rule callVisit_edgeStep)
    have v: "visitFuncBodyForCalls L a fn fp ti tp = ?F (?cid a) a" for a
      unfolding FuncDecl Some visitFuncBodyForCalls_unfold ..
    show ?thesis
    proof (rule edgeStep_I [where E = "\<lambda>r c. Relationships
              (visitFuncBodyForCalls L (bareState r c) fn fp ti tp)"])
      fix a :: GoAnalyzer
      let ?b = "bareState (RepoAbs a) (CollectedNodeIDs a)"
      have "getComponentIDForFile L ?b = getComponentIDForFile L a"
        by (rule getComponentIDForFile_cong) simp
      then have cid: "?cid ?b = ?cid a" by (cases recv) simp_all
      show "visitFuncBodyForCalls L a fn fp ti tp =
            a\<lparr>Relationships := Relationships a @
              Relationships (visitFuncBodyForCalls L ?b fn fp ti tp)\<rparr>"
        unfolding v cid by (rule edgeStep_bare [OF F])
    qed
  qed
qed (simp_all add: visitFuncBodyForCalls_def edgeStep_id)

lemma funcVisit_edgeStep: "edgeStep (funcVisit L fp fi n)"
proof (cases n)
  case (FuncDecl d recv nm ps sg bodyOpt sp ep)
  have "funcVisit L fp fi n = (\<lambda>a. visitFuncBodyForCalls L a n fp (info fi) (pkg fi))"
    by (intro ext) (simp add: funcVisit_def FuncDecl)
  then show ?thesis by (simp add: visitFuncBodyForCalls_edgeStep)
qed (simp_all add: funcVisit_def [abs_def] edgeStep_id)

lemma collectCalls_edgeStep: "edgeStep (\<lambda>a. collectCalls L a fp fi)"
proof -
  have "(\<lambda>a. collectCalls L a fp fi) = fold (funcVisit L fp fi) (preorder (astFile fi))"
    by (intro ext) (simp add: collectCalls_def)
  then show ?thesis by (simp add: edgeStep_fold funcVisit_edgeStep)
qed

lemma callPass_step_edgeStep:
  "edgeStep (\<lambda>a. case fis k of Some fi \<Rightarrow> collectCalls L a k fi | None \<Rightarrow> a)"
  by (cases "fis k") (simp_all add: edgeStep_id collectCalls_edgeStep)

lemma callPass_edgeStep: "edgeStep (callPass L fis order)"
  unfolding callPass_def by (rule edgeStep_fold) (rule callPass_step_edgeStep)

text \<open>
  The resolution pass file by file: each file's relationships are the ones
  \<open>collectCalls\<close> gives for it on the state the pass started from.
\<close>

lemma callPass_files:
  "callPass L fis order a =
     a\<lparr>Relationships := Relationships a @
        concat (map (\<lambda>k. case fis k of
                            Some fi \<Rightarrow> Relationships
                                         (collectCalls L (a\<lparr>Relationships := []\<rparr>) k fi)
                          | None \<Rightarrow> []) order)\<rparr>"
proof (induction order arbitrary: a)
  case Nil
  then show ?case by (simp add: callPass_def)
next
  case (Cons k ks)
  define s where "s = (case fis k of Some fi \<Rightarrow> collectCalls L a k fi | None \<Rightarrow> a)"
  define new where "new = (case fis k of
                Some fi \<Rightarrow> Relationships (collectCalls L (a\<lparr>Relationships := []\<rparr>) k fi)
              | None \<Rightarrow> [])"
  have step: "s = a\<lparr>Relationships := Relationships a @ new\<rparr>"
    using edgeStep_fresh [OF callPass_step_edgeStep [where fis = fis and k = k and L = L], of a]
    unfolding s_def new_def by (cases "fis k") simp_all
  have same: "s\<lparr>Relationships := []\<rparr> = a\<lparr>Relationships := []\<rparr>"
    by (simp add: step)
  have "callPass L fis (k # ks) a = callPass L fis ks s"
    by (simp add: callPass_def s_def)
  also have "\<dots> = s\<lparr>Relationships := Relationships s @
        concat (map (\<lambda>k. case fis k of
                            Some fi \<Rightarrow> Relationships
                                         (collectCalls L (s\<lparr>Relationships := []\<rparr>) k fi)
                          | None \<Rightarrow> []) ks)\<rparr>"
    by (rule Cons.IH)
  also have "\<dots> = a\<lparr>Relationships := Relationships a @ new @
        concat (map (\<lambda>k. case fis k of
                            Some fi \<Rightarrow> Relationships
                                         (collectCalls L (a\<lparr>Relationships := []\<rparr>) k fi)
                          | None \<Rightarrow> []) ks)\<rparr>"
    unfolding same by (simp add: step)
  finally show ?case by (simp add: new_def)
qed

section \<open>Source spans and documentation\<close>

lemma visitTypeSpec_Inr:
  assumes "typeSpecKind t = Some nt"
  shows "visitTypeSpec L a (TypeSpec d nm tps t sp ep) gd fp buf =
     Inr (registerNode a (getComponentIDForFile L a fp nm [])
            (typeSpecNode L a nm nt sp ep (case d of None \<Rightarrow> gd | Some c \<Rightarrow> Some c) fp
               (let s = (case (case d of None \<Rightarrow> gd | Some c \<Rightarrow> Some c) of
                           Some c \<Rightarrow> Offset (cgPosition c) | None \<Rightarrow> Offset sp);
                    e = Offset ep
                in if 0 \<le> s \<and> e \<le> int (length buf) \<and> s \<le> e
                   then take (nat (e - s)) (drop (nat s) buf) else [])))"
  using assms by (simp add: visitTypeSpec_def captureSource_Inr Let_def)

lemma visitFuncDecl_Inr:
  "visitFuncDecl L a (FuncDecl d recv nm ps sg b sp ep) fp buf =
     Inr (registerNode a
            (getComponentIDForFile L a fp nm
               (case recv of None \<Rightarrow> [] | Some fs \<Rightarrow> recvTypeLoop fs []))
            (funcDeclNode L a d recv nm ps sp ep fp
               (let s = (case d of Some c \<Rightarrow> Offset (cgPosition c) | None \<Rightarrow> Offset sp);
                    e = Offset ep
                in if 0 \<le> s \<and> e \<le> int (length buf) \<and> s \<le> e
                   then take (nat (e - s)) (drop (nat s) buf) else [])))"
  by (cases recv) (simp_all add: visitFuncDecl_def captureSource_Inr Let_def)

lemma registerNode_eq:
  "registerNode a cid node =
     a\<lparr>CollectedNodeIDs := (CollectedNodeIDs a)(cid \<mapsto> True), Nodes := Nodes a @ [node]\<rparr>"
  by (simp add: registerNode_def)

lemma typeSpecNode_ID: "ID (typeSpecNode L a nm nt sp ep d fp src) = getComponentIDForFile L a fp nm []"
  by (simp add: typeSpecNode_def Let_def split: option.splits)

lemma funcDeclNode_ID:
  "ID (funcDeclNode L a d recv nm ps sp ep fp src) =
     getComponentIDForFile L a fp nm (case recv of None \<Rightarrow> [] | Some fs \<Rightarrow> recvTypeLoop fs [])"
  by (simp add: funcDeclNode_def Let_def split: option.splits)

lemma collectVisit_simps:
  "collectVisit L fp buf (GenDecl tok doc specs) a =
     (if tok = token_TYPE
      then forEach (\<lambda>spec a'. visitTypeSpec L a' spec doc fp buf) specs a else Inr a)"
  "collectVisit L fp buf (FuncDecl d recv nm ps sg b sp ep) a =
     visitFuncDecl L a (FuncDecl d recv nm ps sg b sp ep) fp buf"
  "collectVisit L fp buf (Ident i n) a = Inr a"
  "collectVisit L fp buf (StarExpr x) a = Inr a"
  "collectVisit L fp buf (SelectorExpr i x j s) a = Inr a"
  "collectVisit L fp buf (IndexExpr x ix) a = Inr a"
  "collectVisit L fp buf (IndexListExpr x ixs) a = Inr a"
  "collectVisit L fp buf (CallExpr p f args) a = Inr a"
  "collectVisit L fp buf (StructType fs) a = Inr a"
  "collectVisit L fp buf (InterfaceType fs) a = Inr a"
  "collectVisit L fp buf (TypeSpec td tn tps tt tsp tep) a = Inr a"
  "collectVisit L fp buf (File fpos decls) a = Inr a"
  "collectVisit L fp buf (Other xs) a = Inr a"
  by (simp_all add: collectVisit_def)

lemma repoAnalyzer_fields:
  "RepoAbs repoAnalyzer = ''/repo''" "RepoPath repoAnalyzer = ''/repo''"
  "Nodes repoAnalyzer = []" "Relationships repoAnalyzer = []"
  "CollectedNodeIDs repoAnalyzer = Map.empty"
  by (simp_all add: repoAnalyzer_def)

lemma struct_facts:
  "getComponentIDForFile belowRoot repoAnalyzer ''/repo/test_struct.go'' ''MyStruct'' [] =
     ''test_struct.MyStruct''"
  "relPathOf belowRoot ''/repo'' ''/repo/test_struct.go'' = ''test_struct.go''"
  by code_simp+

lemma struct_span:
  "int (length structSource) = 86"
  "take 68 (drop 17 structSource) =
       ''// MyStruct is a test struct'' @ [CHR 0x0A] @
       ''type MyStruct struct {'' @ [CHR 0x0A, CHR 0x09] @
       ''Field1 string'' @ [CHR 0x0A] @ ''}''"
  by (simp_all add: structSource_def)

text \<open>
  C8 (span-extraction safety).  Whatever the offsets, capturing the source never
  panics: neither the shared capture step nor \<^verbatim>\<open>visitTypeSpec\<close>, \<^verbatim>\<open>visitFuncDecl\<close> or a whole
  \<^verbatim>\<open>collectNodes\<close> pass ends in a slice failure.  For every declaration, documented or
  not, whose computed start offset (the offset of its effective documentation comment
  when it has one, of the declaration otherwise) and end offset lie outside the buffer
  (start negative, end past the buffer, or start after end), the visitor returns
  normally and appends the node of the declaration with an empty \<^verbatim>\<open>SourceCode\<close>.
\<close>

theorem span_extraction_safe:
  "(\<forall>p. captureSource buf startOffset endOffset \<noteq> Inl p) \<and>
   (\<forall>p. visitTypeSpec L a ts genDeclDoc filePath buf \<noteq> Inl p) \<and>
   (\<forall>p. visitFuncDecl L a fn filePath buf \<noteq> Inl p) \<and>
   (\<forall>p. collectNodes L a filePath fi \<noteq> Inl p) \<and>
   (startOffset < 0 \<or> int (length buf) < endOffset \<or> endOffset < startOffset \<longrightarrow>
      captureSource buf startOffset endOffset = Inr []) \<and>
   (typeSpecKind tsType = Some nodeType \<longrightarrow>
    (let doc = (case tsDoc of None \<Rightarrow> genDoc | Some d \<Rightarrow> Some d);
         start = (case doc of Some d \<Rightarrow> Offset (cgPosition d) | None \<Rightarrow> Offset startPos)
     in start < 0 \<or> int (length buf) < Offset endPos \<or> Offset endPos < start \<longrightarrow>
        (\<exists>node.
           visitTypeSpec L a (TypeSpec tsDoc name tparams tsType startPos endPos) genDoc
             filePath buf =
           Inr (a\<lparr>CollectedNodeIDs := (CollectedNodeIDs a)(ID node \<mapsto> True),
                  Nodes := Nodes a @ [node]\<rparr>) \<and>
           ID node = getComponentIDForFile L a filePath name [] \<and>
           Name node = name \<and> SourceCode node = []))) \<and>
   (let start = (case fnDoc of Some d \<Rightarrow> Offset (cgPosition d) | None \<Rightarrow> Offset startPos)
    in start < 0 \<or> int (length buf) < Offset endPos \<or> Offset endPos < start \<longrightarrow>
       (\<exists>node.
          visitFuncDecl L a (FuncDecl fnDoc recv name params sig body startPos endPos)
            filePath buf =
          Inr (a\<lparr>CollectedNodeIDs := (CollectedNodeIDs a)(ID node \<mapsto> True),
                 Nodes := Nodes a @ [node]\<rparr>) \<and>
          ID node = getComponentIDForFile L a filePath name
                      (case recv of None \<Rightarrow> [] | Some fs \<Rightarrow> recvTypeLoop fs []) \<and>
          Name node = name \<and> SourceCode node = []))"
proof (intro conjI allI impI)
  fix p
  show "captureSource buf startOffset endOffset \<noteq> Inl p"
    by (simp add: captureSource_Inr)
  show "visitTypeSpec L a ts genDeclDoc filePath buf \<noteq> Inl p"
    using visitTypeSpec_total [of L a ts genDeclDoc filePath buf] by auto
  show "visitFuncDecl L a fn filePath buf \<noteq> Inl p"
    using visitFuncDecl_total [of L a fn filePath buf] by auto
  show "collectNodes L a filePath fi \<noteq> Inl p"
    using collectNodes_total [of L a filePath fi] by auto
next
  assume "startOffset < 0 \<or> int (length buf) < endOffset \<or> endOffset < startOffset"
  then show "captureSource buf startOffset endOffset = Inr []"
    by (auto simp: captureSource_Inr)
next
  assume kind: "typeSpecKind tsType = Some nodeType"
  define doc where "doc = (case tsDoc of None \<Rightarrow> genDoc | Some d \<Rightarrow> Some d)"
  define start where
    "start = (case doc of Some d \<Rightarrow> Offset (cgPosition d) | None \<Rightarrow> Offset startPos)"
  have "\<exists>node.
           visitTypeSpec L a (TypeSpec tsDoc name tparams tsType startPos endPos) genDoc
             filePath buf =
           Inr (a\<lparr>CollectedNodeIDs := (CollectedNodeIDs a)(ID node \<mapsto> True),
                  Nodes := Nodes a @ [node]\<rparr>) \<and>
           ID node = getComponentIDForFile L a filePath name [] \<and>
           Name node = name \<and> SourceCode node = []"
    if oob: "start < 0 \<or> int (length buf) < Offset endPos \<or> Offset endPos < start"
  proof -
    let ?t = "typeSpecNode L a name nodeType startPos endPos doc filePath []"
    have "visitTypeSpec L a (TypeSpec tsDoc name tparams tsType startPos endPos) genDoc
            filePath buf = Inr (registerNode a (ID ?t) ?t)"
      using oob kind unfolding start_def doc_def
      by (auto simp: visitTypeSpec_Inr typeSpecNode_ID Let_def)
    moreover have "Name ?t = name" "SourceCode ?t = []"
      by (simp_all add: typeSpecNode_def Let_def split: option.splits)
    ultimately show ?thesis
      by (intro exI [of _ ?t]) (simp add: registerNode_eq typeSpecNode_ID)
  qed
  then show "let doc = (case tsDoc of None \<Rightarrow> genDoc | Some d \<Rightarrow> Some d);
         start = (case doc of Some d \<Rightarrow> Offset (cgPosition d) | None \<Rightarrow> Offset startPos)
     in start < 0 \<or> int (length buf) < Offset endPos \<or> Offset endPos < start \<longrightarrow>
        (\<exists>node.
           visitTypeSpec L a (TypeSpec tsDoc name tparams tsType startPos endPos) genDoc
             filePath buf =
           Inr (a\<lparr>CollectedNodeIDs := (CollectedNodeIDs a)(ID node \<mapsto> True),
                  Nodes := Nodes a @ [node]\<rparr>) \<and>
           ID node = getComponentIDForFile L a filePath name [] \<and>
           Name node = name \<and> SourceCode node = [])"
    unfolding Let_def start_def doc_def by blast
next
  define start where
    "start = (case fnDoc of Some d \<Rightarrow> Offset (cgPosition d) | None \<Rightarrow> Offset startPos)"
  have "\<exists>node.
          visitFuncDecl L a (FuncDecl fnDoc recv name params sig body startPos endPos)
            filePath buf =
          Inr (a\<lparr>CollectedNodeIDs := (CollectedNodeIDs a)(ID node \<mapsto> True),
                 Nodes := Nodes a @ [node]\<rparr>) \<and>
          ID node = getComponentIDForFile L a filePath name
                      (case recv of None \<Rightarrow> [] | Some fs \<Rightarrow> recvTypeLoop fs []) \<and>
          Name node = name \<and> SourceCode node = []"
    if oob: "start < 0 \<or> int (length buf) < Offset endPos \<or> Offset endPos < start"
  proof -
    let ?f = "funcDeclNode L a fnDoc recv name params startPos endPos filePath []"
    have "visitFuncDecl L a (FuncDecl fnDoc recv name params sig body startPos endPos)
            filePath buf = Inr (registerNode a (ID ?f) ?f)"
      using oob unfolding start_def
      by (auto simp: visitFuncDecl_Inr funcDeclNode_ID Let_def)
    moreover have "Name ?f = name" "SourceCode ?f = []"
      by (simp_all add: funcDeclNode_def Let_def split: option.splits)
    ultimately show ?thesis
      by (intro exI [of _ ?f]) (simp add: registerNode_eq funcDeclNode_ID)
  qed
  then show "let start = (case fnDoc of Some d \<Rightarrow> Offset (cgPosition d) | None \<Rightarrow> Offset startPos)
    in start < 0 \<or> int (length buf) < Offset endPos \<or> Offset endPos < start \<longrightarrow>
       (\<exists>node.
          visitFuncDecl L a (FuncDecl fnDoc recv name params sig body startPos endPos)
            filePath buf =
          Inr (a\<lparr>CollectedNodeIDs := (CollectedNodeIDs a)(ID node \<mapsto> True),
                 Nodes := Nodes a @ [node]\<rparr>) \<and>
          ID node = getComponentIDForFile L a filePath name
                      (case recv of None \<Rightarrow> [] | Some fs \<Rightarrow> recvTypeLoop fs []) \<and>
          Name node = name \<and> SourceCode node = [])"
    unfolding Let_def start_def by blast
qed

theorem span_extraction_safe_witness:
  "captureSource ''package p'' 4 12 = Inr [] \<and>
   captureSource ''package p'' (- 1) 3 = Inr [] \<and>
   captureSource ''package p'' 5 2 = Inr [] \<and>
   visitTypeSpec belowRoot repoAnalyzer structSpec (Some structDoc) ''/repo/test_struct.go''
      ''package p'' \<noteq> Inl SliceBoundsOutOfRange \<and>
   (\<exists>node.
      visitTypeSpec belowRoot repoAnalyzer structSpec (Some structDoc)
        ''/repo/test_struct.go'' ''package testpkg'' =
      Inr (repoAnalyzer\<lparr>CollectedNodeIDs := [ID node \<mapsto> True], Nodes := [node]\<rparr>) \<and>
      ID node = ''test_struct.MyStruct'' \<and> Name node = ''MyStruct'' \<and> SourceCode node = []) \<and>
   (\<exists>node.
      visitFuncDecl belowRoot repoAnalyzer
        (FuncDecl (Some structDoc) None ''MyStruct'' None [] None
           (at ''/repo/test_struct.go'' 51 4) (at ''/repo/test_struct.go'' 12 1))
        ''/repo/test_struct.go'' structSource =
      Inr (repoAnalyzer\<lparr>CollectedNodeIDs := [ID node \<mapsto> True], Nodes := [node]\<rparr>) \<and>
      ID node = ''test_struct.MyStruct'' \<and> Name node = ''MyStruct'' \<and> SourceCode node = [])"
  using span_extraction_safe [where buf = "''package p''" and startOffset = 4
          and endOffset = 12 and L = belowRoot and a = repoAnalyzer and ts = structSpec
          and genDeclDoc = "Some structDoc" and filePath = "''/repo/test_struct.go''"]
        span_extraction_safe [where buf = "''package p''" and startOffset = "- 1"
          and endOffset = 3]
        span_extraction_safe [where buf = "''package p''" and startOffset = 5
          and endOffset = 2]
        span_extraction_safe [where buf = "''package testpkg''" and L = belowRoot
          and a = repoAnalyzer and filePath = "''/repo/test_struct.go''"
          and tsType = "StructType [Ident 1 ''string'']" and nodeType = "''struct''"
          and tsDoc = None and genDoc = "Some structDoc" and name = "''MyStruct''"
          and tparams = "[]" and startPos = "at ''/repo/test_struct.go'' 51 4"
          and endPos = "at ''/repo/test_struct.go'' 85 6"]
        span_extraction_safe [where buf = structSource and L = belowRoot
          and a = repoAnalyzer and filePath = "''/repo/test_struct.go''"
          and fnDoc = "Some structDoc" and recv = None and name = "''MyStruct''"
          and params = None and sig = "[]" and body = None
          and startPos = "at ''/repo/test_struct.go'' 51 4"
          and endPos = "at ''/repo/test_struct.go'' 12 1"]
  by (simp add: structSpec_def structDoc_def typeSpecKind_def at_def struct_facts struct_span
        repoAnalyzer_fields)

section \<open>Documentation comments\<close>

lemma splitLoop_no_newline: "CHR 0x0A \<notin> set c \<Longrightarrow> splitLoop c cur = [cur @ c]"
  by (induction c arbitrary: cur) auto

lemma Text_single_line:
  assumes "cgList g = [LineComment c]" "CHR 0x0A \<notin> set c"
  shows "CommentGroup_Text g =
     (if c \<noteq> [] \<and> hd c \<noteq> CHR '' '' \<and> isDirective c then []
      else let line = stripTrailingWhitespace (if c \<noteq> [] \<and> hd c = CHR '' '' then tl c else c)
           in if line = [] then [] else line @ [CHR 0x0A])"
proof -
  have "CHR 0x0A \<notin> set (tl c)" using assms(2) by (cases c) auto
  then show ?thesis
    using assms
    by (simp add: CommentGroup_Text_def commentLines_def strings_Split_def
          splitLoop_no_newline Let_def)
qed

lemma struct_text:
  "CommentGroup_Text structDoc = ''MyStruct is a test struct'' @ [CHR 0x0A]"
  by (simp add: Text_single_line [where c = "'' MyStruct is a test struct''"] structDoc_def
        stripTrailingWhitespace_def isWhitespace_def)

lemma struct_preorder:
  "preorder structFile =
     [structFile, GenDecl token_TYPE (Some structDoc) [structSpec], structSpec,
      StructType [Ident 1 ''string''], Ident 1 ''string'']"
  by (simp add: preorder.simps structFile_def structSpec_def)

lemma struct_skips:
  "collectVisit L fp buf structFile a = Inr a"
  "collectVisit L fp buf structSpec a = Inr a"
  by (simp_all add: collectVisit_simps structFile_def structSpec_def)

text \<open>
  C7 (documentation attachment), as the code has it.  A struct or interface declaration
  whose documentation comment (its own \<^verbatim>\<open>Doc\<close>, or the \<^verbatim>\<open>Doc\<close> of its \<^verbatim>\<open>GenDecl\<close> when it has
  none) is one line comment \<^verbatim>\<open>//\<close>\<open>c\<close> makes the collection callback append a node with
  \<^verbatim>\<open>HasDocstring\<close> set, with \<^verbatim>\<open>SourceCode\<close> equal to the bytes from the comment's offset to
  the end of the declaration, and with \<^verbatim>\<open>Docstring\<close> equal to \<open>c\<close> without its first space
  and without the white space at its end, followed by a newline.  The docstring is
  empty when nothing is left, or when \<open>c\<close> is a directive.  White space after the first
  space is kept, and so is the final newline: the docstring is not trimmed.
\<close>

theorem documentation_attachment:
  assumes "typeSpecKind tsType = Some nodeType"
    and "(case tsDoc of None \<Rightarrow> genDeclDoc | Some own \<Rightarrow> Some own) = Some d"
    and "cgList d = [LineComment c]"
    and "CHR 0x0A \<notin> set c"
    and "0 \<le> Offset (cgPosition d)"
    and "Offset (cgPosition d) \<le> Offset endPos"
    and "Offset endPos \<le> int (length buf)"
  shows "\<exists>node.
     collectVisit L filePath buf
       (GenDecl token_TYPE genDeclDoc [TypeSpec tsDoc tsName tparams tsType startPos endPos]) a =
     Inr (a\<lparr>CollectedNodeIDs := (CollectedNodeIDs a)(ID node \<mapsto> True),
            Nodes := Nodes a @ [node]\<rparr>) \<and>
     ID node = getComponentIDForFile L a filePath tsName [] \<and>
     Name node = tsName \<and>
     HasDocstring node \<and>
     Docstring node =
       (if c \<noteq> [] \<and> hd c \<noteq> CHR '' '' \<and> isDirective c then []
        else let line = stripTrailingWhitespace
                          (if c \<noteq> [] \<and> hd c = CHR '' '' then tl c else c)
             in if line = [] then [] else line @ [CHR 0x0A]) \<and>
     SourceCode node =
       take (nat (Offset endPos - Offset (cgPosition d))) (drop (nat (Offset (cgPosition d))) buf)"
proof -
  let ?src = "take (nat (Offset endPos - Offset (cgPosition d)))
                (drop (nat (Offset (cgPosition d))) buf)"
  let ?n = "typeSpecNode L a tsName nodeType startPos endPos (Some d) filePath ?src"
  have "visitTypeSpec L a (TypeSpec tsDoc tsName tparams tsType startPos endPos) genDeclDoc
          filePath buf = Inr (registerNode a (ID ?n) ?n)"
    using assms by (simp add: visitTypeSpec_Inr typeSpecNode_ID Let_def)
  then have "collectVisit L filePath buf
       (GenDecl token_TYPE genDeclDoc [TypeSpec tsDoc tsName tparams tsType startPos endPos]) a =
     Inr (a\<lparr>CollectedNodeIDs := (CollectedNodeIDs a)(ID ?n \<mapsto> True),
            Nodes := Nodes a @ [?n]\<rparr>)"
    by (simp add: collectVisit_simps registerNode_eq)
  moreover have "HasDocstring ?n" "Docstring ?n = CommentGroup_Text d" "Name ?n = tsName"
    "SourceCode ?n = ?src"
    by (simp_all add: typeSpecNode_def Let_def)
  ultimately show ?thesis
    using Text_single_line [OF assms(3,4)]
    by (intro exI [of _ ?n]) (simp add: typeSpecNode_ID)
qed

theorem documentation_attachment_witness:
  "\<exists>node.
     collectVisit belowRoot ''/repo/test_struct.go'' structSource
       (GenDecl token_TYPE (Some structDoc) [structSpec]) repoAnalyzer =
     Inr (repoAnalyzer\<lparr>CollectedNodeIDs := [ID node \<mapsto> True], Nodes := [node]\<rparr>) \<and>
     ID node = ''test_struct.MyStruct'' \<and>
     Name node = ''MyStruct'' \<and>
     HasDocstring node \<and>
     Docstring node = ''MyStruct is a test struct'' @ [CHR 0x0A] \<and>
     SourceCode node =
       ''// MyStruct is a test struct'' @ [CHR 0x0A] @
       ''type MyStruct struct {'' @ [CHR 0x0A, CHR 0x09] @
       ''Field1 string'' @ [CHR 0x0A] @ ''}''"
  using documentation_attachment
      [where tsType = "StructType [Ident 1 ''string'']" and nodeType = "''struct''"
         and tsDoc = None and genDeclDoc = "Some structDoc" and d = structDoc
         and c = "'' MyStruct is a test struct''"
         and endPos = "at ''/repo/test_struct.go'' 85 6" and buf = structSource
         and L = belowRoot and a = repoAnalyzer and tsName = "''MyStruct''" and tparams = "[]"
         and startPos = "at ''/repo/test_struct.go'' 51 4"
         and filePath = "''/repo/test_struct.go''"]
  by (simp add: structSpec_def structDoc_def typeSpecKind_def at_def struct_facts struct_span
        repoAnalyzer_fields stripTrailingWhitespace_def isWhitespace_def)

text \<open>
  C7 as the specification words it fails on the file of the repository's own test.  The
  docstring stored for \<^verbatim>\<open>// MyStruct is a test struct\<close> ends in a newline, so it is not
  the trimmed comment text; the test compares it only after \<^verbatim>\<open>strings.TrimSpace\<close>.
\<close>

theorem documentation_not_trimmed:
  "collectNodes belowRoot repoAnalyzer ''/repo/test_struct.go'' structInfo =
     Inr (repoAnalyzer\<lparr>CollectedNodeIDs := [''test_struct.MyStruct'' \<mapsto> True],
            Nodes := [structNode]\<rparr>) \<and>
   Docstring structNode = ''MyStruct is a test struct'' @ [CHR 0x0A] \<and>
   strippedAndTrimmed (LineComment '' MyStruct is a test struct'') =
     ''MyStruct is a test struct'' \<and>
   Docstring structNode \<noteq> strippedAndTrimmed (LineComment '' MyStruct is a test struct'')"
proof -
  have "visitTypeSpec belowRoot repoAnalyzer structSpec (Some structDoc)
          ''/repo/test_struct.go'' structSource =
        Inr (repoAnalyzer\<lparr>CollectedNodeIDs := [''test_struct.MyStruct'' \<mapsto> True],
               Nodes := [structNode]\<rparr>)"
    by (simp add: structSpec_def visitTypeSpec_Inr typeSpecKind_def typeSpecNode_def
          registerNode_def struct_facts struct_text struct_span structNode_def
          repoAnalyzer_fields at_def Let_def)
       (simp add: structDoc_def at_def struct_span)
  then have "collectNodes belowRoot repoAnalyzer ''/repo/test_struct.go'' structInfo =
     Inr (repoAnalyzer\<lparr>CollectedNodeIDs := [''test_struct.MyStruct'' \<mapsto> True],
            Nodes := [structNode]\<rparr>)"
    by (simp add: collectNodes_def structInfo_def struct_preorder collectVisit_simps
          struct_skips)
  moreover have "strippedAndTrimmed (LineComment '' MyStruct is a test struct'') =
     ''MyStruct is a test struct''"
    by (simp add: strippedAndTrimmed_def isWhitespace_def)
  ultimately show ?thesis by (simp add: structNode_def)
qed

section \<open>The heuristic path of processCall\<close>

lemma processCall_heuristic:
  assumes "typePathDeclines L a (CallExpr p f args) ti tp"
  shows "processCall L a cid rn rt (CallExpr p f args) ti tp fp =
     (if heuristicCallee L a rn rt f fp \<noteq> []
      then appendCall a cid (heuristicCallee L a rn rt f fp) (Line p)
             (lookupBool (CollectedNodeIDs a) (heuristicCallee L a rn rt f fp))
      else a)"
proof (cases ti)
  case None
  then show ?thesis by (simp add: processCall_unfold)
next
  case (Some ti')
  show ?thesis
  proof (cases "tp = None")
    case True
    then show ?thesis using Some by (simp add: processCall_unfold)
  next
    case False
    obtain c r ok where t: "resolveCallWithTypes L a (CallExpr p f args) ti' = (c, r, ok)"
      by (cases "resolveCallWithTypes L a (CallExpr p f args) ti'")
    have "\<not> ok" using assms Some False t by (simp add: typePathDeclines_def)
    then show ?thesis using Some False t by (simp add: processCall_unfold)
  qed
qed

lemma getComponentIDForFile_nonempty: "getComponentIDForFile L a fp n r \<noteq> []"
  by (simp add: getComponentIDForFile_def Let_def)



section \<open>Runs of Analyze\<close>

lemma Analyze_Inr:
  assumes "Analyze L W a = Inr a'"
  obtains fis a1 where "loadFileInfos L W a = Inr fis"
    and "collectPass L fis (rangeFirst W) a = Inr a1"
    and "a' = callPass L fis (rangeSecond W) a1"
  using assms unfolding Analyze_def by (auto split: sum.splits)

lemma collected_obtain:
  assumes "collected L fps a a'"
  obtains new where "RepoAbs a' = RepoAbs a" and "Relationships a' = Relationships a"
    and "Nodes a' = Nodes a @ new"
    and "\<forall>n\<in>set new. FilePath n \<in> fps"
    and "\<forall>n\<in>set new. getComponentIDForFile L a (FilePath n) (Name n) (ClassName n) = ID n"
    and "CollectedNodeIDs a' =
           (\<lambda>k. if k \<in> ID ` set new then Some True else CollectedNodeIDs a k)"
proof -
  from assms have 1: "RepoAbs a' = RepoAbs a" "Relationships a' = Relationships a"
    and ex: "\<exists>new. Nodes a' = Nodes a @ new \<and>
        (\<forall>n\<in>set new. FilePath n \<in> fps \<and>
           getComponentIDForFile L a (FilePath n) (Name n) (ClassName n) = ID n) \<and>
        CollectedNodeIDs a' =
          (\<lambda>k. if k \<in> ID ` set new then Some True else CollectedNodeIDs a k)"
    unfolding collected_def by simp_all
  from ex obtain new where 2: "Nodes a' = Nodes a @ new \<and>
        (\<forall>n\<in>set new. FilePath n \<in> fps \<and>
           getComponentIDForFile L a (FilePath n) (Name n) (ClassName n) = ID n) \<and>
        CollectedNodeIDs a' =
          (\<lambda>k. if k \<in> ID ` set new then Some True else CollectedNodeIDs a k)"
    ..
  show thesis
    by (rule that [of new]) (use 1 2 in simp_all)
qed

lemma Analyze_frame:
  assumes "Analyze L W a = Inr a'"
  obtains fis a1 where "loadFileInfos L W a = Inr fis"
    and "collectPass L fis (rangeFirst W) a = Inr a1"
    and "a' = callPass L fis (rangeSecond W) a1"
    and "RepoAbs a' = RepoAbs a1" and "CollectedNodeIDs a' = CollectedNodeIDs a1"
    and "Nodes a' = Nodes a1"
proof -
  from assms obtain fis a1 where
    1: "loadFileInfos L W a = Inr fis" "collectPass L fis (rangeFirst W) a = Inr a1"
       "a' = callPass L fis (rangeSecond W) a1"
    by (rule Analyze_Inr)
  have "RepoAbs a' = RepoAbs a1" "CollectedNodeIDs a' = CollectedNodeIDs a1" "Nodes a' = Nodes a1"
    unfolding 1(3) by (simp_all add: edgeStep_frame [OF callPass_edgeStep])
  with 1 show thesis by (rule that)
qed

lemma edgeStep_mono:
  assumes "edgeStep T"
  shows "set (Relationships a) \<subseteq> set (Relationships (T a))"
  by (subst edgeStep_bare [OF assms]) simp

lemma fold_edgeStep_member:
  assumes "\<forall>y\<in>set xs. edgeStep (f y)" and "x \<in> set xs"
  shows "set (Relationships (f x (bareState (RepoAbs a) (CollectedNodeIDs a))))
           \<subseteq> set (Relationships (fold f xs a))"
  using assms
proof (induction xs arbitrary: a)
  case Nil
  then show ?case by simp
next
  case (Cons y ys)
  have ey: "edgeStep (f y)" using Cons.prems(1) by simp
  have eys: "\<forall>z\<in>set ys. edgeStep (f z)" using Cons.prems(1) by simp
  have efold: "edgeStep (fold f ys)" by (rule edgeStep_fold) (simp add: eys)
  show ?case
  proof (cases "x = y")
    case True
    have "Relationships (f y a) =
            Relationships a @ Relationships (f y (bareState (RepoAbs a) (CollectedNodeIDs a)))"
      by (subst edgeStep_bare [OF ey]) simp
    then have "set (Relationships (f x (bareState (RepoAbs a) (CollectedNodeIDs a))))
                 \<subseteq> set (Relationships (f y a))"
      using True by simp
    also have "\<dots> \<subseteq> set (Relationships (fold f ys (f y a)))"
      by (rule edgeStep_mono [OF efold])
    finally show ?thesis by simp
  next
    case False
    then have "x \<in> set ys" using Cons.prems(2) by simp
    from Cons.IH [OF eys this, of "f y a"]
    show ?thesis by (simp add: edgeStep_frame [OF ey])
  qed
qed

text \<open>
  Every call expression in the body of a function declaration of a file that the
  resolution pass visits contributes its relationships to the pass's result.
\<close>

lemma callPass_call_site:
  assumes "k \<in> set order" and "fis k = Some fi"
    and "FuncDecl d recv nm ps sg (Some body) sp ep \<in> set (preorder (astFile fi))"
    and "call \<in> set (preorder body)"
  shows "set (Relationships
               (callVisit L
                  (getComponentIDForFile L a1 k nm
                     (case recv of Some fs \<Rightarrow> fst (recvLoop fs ([], [])) | None \<Rightarrow> []))
                  (case recv of Some fs \<Rightarrow> snd (recvLoop fs ([], [])) | None \<Rightarrow> [])
                  (case recv of Some fs \<Rightarrow> fst (recvLoop fs ([], [])) | None \<Rightarrow> [])
                  (info fi) (pkg fi) k call
                  (bareState (RepoAbs a1) (CollectedNodeIDs a1))))
           \<subseteq> set (Relationships (callPass L fis order a1))"
proof -
  let ?b = "bareState (RepoAbs a1) (CollectedNodeIDs a1)"
  let ?fn = "FuncDecl d recv nm ps sg (Some body) sp ep"
  let ?rt = "case recv of Some fs \<Rightarrow> fst (recvLoop fs ([], [])) | None \<Rightarrow> []"
  let ?rn = "case recv of Some fs \<Rightarrow> snd (recvLoop fs ([], [])) | None \<Rightarrow> []"
  let ?cid = "getComponentIDForFile L a1 k nm ?rt"
  have same: "getComponentIDForFile L ?b = getComponentIDForFile L a1"
    by (rule getComponentIDForFile_cong) simp
  have cid: "(case recv of
                Some fs \<Rightarrow> getComponentIDForFile L ?b k nm (fst (recvLoop fs ([], [])))
              | None \<Rightarrow> getComponentIDForFile L ?b k nm []) = ?cid"
    by (cases recv) (simp_all add: same)
  have body: "visitFuncBodyForCalls L ?b ?fn k (info fi) (pkg fi) =
          fold (callVisit L ?cid ?rn ?rt (info fi) (pkg fi) k) (preorder body) ?b"
    unfolding visitFuncBodyForCalls_unfold cid ..
  have "set (Relationships (callVisit L ?cid ?rn ?rt (info fi) (pkg fi) k call ?b))
          \<subseteq> set (Relationships (visitFuncBodyForCalls L ?b ?fn k (info fi) (pkg fi)))"
    unfolding body
    using fold_edgeStep_member
            [where f = "callVisit L ?cid ?rn ?rt (info fi) (pkg fi) k" and xs = "preorder body"
               and x = call and a = ?b] assms(4)
    by (simp add: callVisit_edgeStep)
  also have "visitFuncBodyForCalls L ?b ?fn k (info fi) (pkg fi) = funcVisit L k fi ?fn ?b"
    by (simp add: funcVisit_def)
  also have "set (Relationships (funcVisit L k fi ?fn ?b))
               \<subseteq> set (Relationships (collectCalls L ?b k fi))"
    unfolding collectCalls_def
    using fold_edgeStep_member
            [where f = "funcVisit L k fi" and xs = "preorder (astFile fi)" and x = ?fn and a = ?b]
          assms(3)
    by (simp add: funcVisit_edgeStep)
  also have "collectCalls L ?b k fi =
               (case fis k of Some fi \<Rightarrow> collectCalls L ?b k fi | None \<Rightarrow> ?b)"
    by (simp add: assms(2))
  also have "set (Relationships (case fis k of Some fi \<Rightarrow> collectCalls L ?b k fi | None \<Rightarrow> ?b))
               \<subseteq> set (Relationships (callPass L fis order a1))"
    unfolding callPass_def
    using fold_edgeStep_member
            [where f = "\<lambda>k a. case fis k of Some fi \<Rightarrow> collectCalls L a k fi | None \<Rightarrow> a"
               and xs = order and x = k and a = a1] assms(1)
    by (simp add: callPass_step_edgeStep)
  finally show ?thesis .
qed

section \<open>Declarations found by the collection pass\<close>

lemma forEach_invariant:
  assumes "I a"
    and "\<And>x s s'. x \<in> set xs \<Longrightarrow> I s \<Longrightarrow> body x s = Inr s' \<Longrightarrow> I s'"
    and "forEach body xs a = Inr a'"
  shows "I a'"
  using assms
proof (induction xs arbitrary: a)
  case Nil
  then show ?case by simp
next
  case (Cons x xs)
  from Cons.prems(3) obtain s where s: "body x a = Inr s" "forEach body xs s = Inr a'"
    by (auto split: sum.splits)
  have "I s" using Cons.prems(1) Cons.prems(2) [of x a s] s(1) by simp
  moreover have "\<And>z t t'. z \<in> set xs \<Longrightarrow> I t \<Longrightarrow> body z t = Inr t' \<Longrightarrow> I t'"
    using Cons.prems(2) by (meson list.set_intros(2))
  ultimately show ?case using Cons.IH [of s] s(2) by blast
qed

lemma forEach_establish:
  assumes "x \<in> set xs"
    and "I a"
    and inv: "\<And>y s s'. y \<in> set xs \<Longrightarrow> I s \<Longrightarrow> body y s = Inr s' \<Longrightarrow> I s'"
    and est: "\<And>s s'. I s \<Longrightarrow> body x s = Inr s' \<Longrightarrow> Q s'"
    and pres: "\<And>y s s'. y \<in> set xs \<Longrightarrow> I s \<Longrightarrow> Q s \<Longrightarrow> body y s = Inr s' \<Longrightarrow> Q s'"
    and "forEach body xs a = Inr a'"
  shows "Q a'"
  using assms(1,2,6) inv pres
proof (induction xs arbitrary: a)
  case Nil
  then show ?case by simp
next
  case (Cons y ys)
  from Cons.prems(3) obtain s where s: "body y a = Inr s" "forEach body ys s = Inr a'"
    by (auto split: sum.splits)
  have Is: "I s" using Cons.prems(2) Cons.prems(4) [of y a s] s(1) by simp
  have inv': "\<And>z t t'. z \<in> set ys \<Longrightarrow> I t \<Longrightarrow> body z t = Inr t' \<Longrightarrow> I t'"
    using Cons.prems(4) by (meson list.set_intros(2))
  have pres': "\<And>z t t'. z \<in> set ys \<Longrightarrow> I t \<Longrightarrow> Q t \<Longrightarrow> body z t = Inr t' \<Longrightarrow> Q t'"
    using Cons.prems(5) by (meson list.set_intros(2))
  show ?case
  proof (cases "x = y")
    case True
    have "Q s" using est [of a s] Cons.prems(2) s(1) True by simp
    then have "I s \<and> Q s" using Is by simp
    then have "I a' \<and> Q a'"
    proof (rule forEach_invariant [where I = "\<lambda>s. I s \<and> Q s" and body = body and xs = ys])
      show "forEach body ys s = Inr a'" by (rule s(2))
    next
      fix z t t'
      assume "z \<in> set ys" "I t \<and> Q t" "body z t = Inr t'"
      then show "I t' \<and> Q t'" using inv' [of z t t'] pres' [of z t t'] by simp
    qed
    then show ?thesis by simp
  next
    case False
    then have "x \<in> set ys" using Cons.prems(1) by simp
    then show ?thesis
      using Cons.IH [of s] Is s(2) inv' pres' by blast
  qed
qed

text \<open>
  What later registrations keep.
\<close>

lemma collected_keeps:
  assumes "collected L fps s s'"
  shows "RepoAbs s' = RepoAbs s"
    and "CollectedNodeIDs s k = Some True \<Longrightarrow> CollectedNodeIDs s' k = Some True"
    and "n \<in> set (Nodes s) \<Longrightarrow> n \<in> set (Nodes s')"
  using assms unfolding collected_def by auto

lemma collected_declared:
  "collected L fps s s' \<Longrightarrow> declared cid name fp s \<Longrightarrow> declared cid name fp s'"
  unfolding declared_def using collected_keeps [of L fps s s'] by blast

lemma visitFuncDecl_declares:
  "visitFuncDecl L s (FuncDecl d None name ps sg b sp ep) fp buf = Inr s' \<Longrightarrow>
   declared (getComponentIDForFile L s fp name []) name fp s'"
  by (auto simp: visitFuncDecl_Inr registerNode_def declared_def)

lemma collectNodes_declares:
  assumes "FuncDecl d None name ps sg b sp ep \<in> set (preorder (astFile fi))"
    and "collectNodes L s fp fi = Inr s'"
  shows "declared (getComponentIDForFile L s fp name []) name fp s'"
proof (rule forEach_establish
    [where I = "\<lambda>t. RepoAbs t = RepoAbs s" and x = "FuncDecl d None name ps sg b sp ep"
       and body = "collectVisit L fp (content fi)" and xs = "preorder (astFile fi)" and a = s])
  show "FuncDecl d None name ps sg b sp ep \<in> set (preorder (astFile fi))" by (rule assms(1))
  show "RepoAbs s = RepoAbs s" ..
  show "forEach (collectVisit L fp (content fi)) (preorder (astFile fi)) s = Inr s'"
    using assms(2) by (simp add: collectNodes_def)
next
  fix y t t'
  assume "collectVisit L fp (content fi) y t = Inr t'" "RepoAbs t = RepoAbs s"
  then show "RepoAbs t' = RepoAbs s"
    using collected_keeps(1) [OF collectVisit_collected] by metis
next
  fix t t'
  assume t: "RepoAbs t = RepoAbs s"
    and "collectVisit L fp (content fi) (FuncDecl d None name ps sg b sp ep) t = Inr t'"
  then have "declared (getComponentIDForFile L t fp name []) name fp t'"
    by (simp add: collectVisit_def visitFuncDecl_declares)
  moreover have "getComponentIDForFile L t = getComponentIDForFile L s"
    using t by (rule getComponentIDForFile_cong)
  ultimately show "declared (getComponentIDForFile L s fp name []) name fp t'" by simp
next
  fix y t t'
  assume "declared (getComponentIDForFile L s fp name []) name fp t"
    and "collectVisit L fp (content fi) y t = Inr t'"
  then show "declared (getComponentIDForFile L s fp name []) name fp t'"
    using collected_declared [OF collectVisit_collected] by metis
qed

lemma collectPass_declares:
  assumes "fp \<in> set order" "fis fp = Some fi"
    and "FuncDecl d None name ps sg b sp ep \<in> set (preorder (astFile fi))"
    and "collectPass L fis order a0 = Inr a1"
  shows "declared (getComponentIDForFile L a0 fp name []) name fp a1"
proof (rule forEach_establish
    [where I = "\<lambda>t. RepoAbs t = RepoAbs a0" and x = fp and xs = order and a = a0
       and body = "\<lambda>filename a'. case fis filename of
                               Some fi \<Rightarrow> collectNodes L a' filename fi
                             | None \<Rightarrow> Inr a'"])
  show "fp \<in> set order" by (rule assms(1))
  show "RepoAbs a0 = RepoAbs a0" ..
  show "forEach (\<lambda>filename a'. case fis filename of
                               Some fi \<Rightarrow> collectNodes L a' filename fi
                             | None \<Rightarrow> Inr a') order a0 = Inr a1"
    using assms(4) by (simp add: collectPass_def)
next
  fix y t t'
  assume "(case fis y of Some fi \<Rightarrow> collectNodes L t y fi | None \<Rightarrow> Inr t) = Inr t'"
    and "RepoAbs t = RepoAbs a0"
  then show "RepoAbs t' = RepoAbs a0"
    using collected_keeps(1) [OF collectNodes_collected] by (auto split: option.splits)
next
  fix t t'
  assume t: "RepoAbs t = RepoAbs a0"
    and "(case fis fp of Some fi \<Rightarrow> collectNodes L t fp fi | None \<Rightarrow> Inr t) = Inr t'"
  then have "collectNodes L t fp fi = Inr t'" using assms(2) by simp
  then have "declared (getComponentIDForFile L t fp name []) name fp t'"
    using assms(3) by (rule collectNodes_declares [rotated])
  moreover have "getComponentIDForFile L t = getComponentIDForFile L a0"
    using t by (rule getComponentIDForFile_cong)
  ultimately show "declared (getComponentIDForFile L a0 fp name []) name fp t'" by simp
next
  fix y t t'
  assume "declared (getComponentIDForFile L a0 fp name []) name fp t"
    and "(case fis y of Some fi \<Rightarrow> collectNodes L t y fi | None \<Rightarrow> Inr t) = Inr t'"
  then show "declared (getComponentIDForFile L a0 fp name []) name fp t'"
    using collected_declared [OF collectNodes_collected] by (auto split: option.splits)
qed

lemma processCall_local:
  assumes "collectPass L fileInfos order a0 = Inr a1"
    and "filePath \<in> set order" and "fileInfos filePath = Some fi"
    and "FuncDecl fnDoc None name params sig body startPos endPos
           \<in> set (preorder (astFile fi))"
    and "\<not> isBuiltin name"
    and "typeInfo = None \<or> typePkg = None"
    and "RepoAbs a = RepoAbs a1" and "CollectedNodeIDs a = CollectedNodeIDs a1"
  shows "processCall L a callerID recvName recvType
           (CallExpr callPos (Ident funAddr name) args) typeInfo typePkg filePath =
         a\<lparr>Relationships := Relationships a @
             [\<lparr>Caller = callerID, Callee = getComponentIDForFile L a filePath name [],
               CallLine = Line callPos, IsResolved = True,
               RelationshipType = ''calls''\<rparr>]\<rparr> \<and>
         (\<exists>n\<in>set (Nodes a1).
            Name n = name \<and> FilePath n = filePath \<and> ClassName n = [] \<and>
            ID n = getComponentIDForFile L a filePath name [])"
proof -
  have abs: "RepoAbs a1 = RepoAbs a0"
    using collectPass_collected [OF assms(1)] unfolding collected_def by blast
  have same: "getComponentIDForFile L a0 = getComponentIDForFile L a"
    by (rule getComponentIDForFile_cong) (simp add: abs assms(7))
  have "declared (getComponentIDForFile L a0 filePath name []) name filePath a1"
    using assms(2,3,4,1) by (rule collectPass_declares)
  then have d: "declared (getComponentIDForFile L a filePath name []) name filePath a1"
    by (simp add: same)
  then have reg: "lookupBool (CollectedNodeIDs a) (getComponentIDForFile L a filePath name [])"
    by (simp add: declared_def lookupBool_def assms(8))
  have decl: "typePathDeclines L a (CallExpr callPos (Ident funAddr name) args) typeInfo typePkg"
    using assms(6) by (auto simp: typePathDeclines_def split: option.splits)
  have h: "heuristicCallee L a recvName recvType (Ident funAddr name) filePath =
             getComponentIDForFile L a filePath name []"
    using assms(5) by (simp add: heuristicCallee_def)
  have "processCall L a callerID recvName recvType
           (CallExpr callPos (Ident funAddr name) args) typeInfo typePkg filePath =
         a\<lparr>Relationships := Relationships a @
             [\<lparr>Caller = callerID, Callee = getComponentIDForFile L a filePath name [],
               CallLine = Line callPos, IsResolved = True,
               RelationshipType = ''calls''\<rparr>]\<rparr>"
    unfolding processCall_heuristic [OF decl] h
    using reg by (simp add: appendCall_def getComponentIDForFile_nonempty)
  moreover have "\<exists>n\<in>set (Nodes a1).
            Name n = name \<and> FilePath n = filePath \<and> ClassName n = [] \<and>
            ID n = getComponentIDForFile L a filePath name []"
    using d unfolding declared_def by blast
  ultimately show ?thesis by simp
qed

section \<open>Identifiers of one file\<close>

lemma first_split:
  "d \<notin> set us \<Longrightarrow> d \<notin> set us' \<Longrightarrow> us @ d # vs = us' @ d # vs' \<Longrightarrow>
   us = us' \<and> vs = vs'"
proof (induction us arbitrary: us')
  case Nil
  then show ?case by (cases us') auto
next
  case (Cons u us)
  then show ?case by (cases us') auto
qed

lemma last_dot_split:
  assumes "xs @ d # a = ys @ d # b" "d \<notin> set a" "d \<notin> set b"
  shows "xs = ys \<and> a = b"
proof -
  have "rev (xs @ d # a) = rev (ys @ d # b)" using assms(1) by simp
  then have "rev a @ d # rev xs = rev b @ d # rev ys" by simp
  moreover have "d \<notin> set (rev a)" "d \<notin> set (rev b)" using assms(2,3) by simp_all
  ultimately have "rev a = rev b \<and> rev xs = rev ys"
    by (rule first_split [rotated 2])
  then show ?thesis by simp
qed

lemma qualified_name_inj:
  assumes "CHR ''.'' \<notin> set n1" "CHR ''.'' \<notin> set n2"
  shows "((if c1 \<noteq> [] then mp @ ''.'' @ c1 @ ''.'' @ n1 else mp @ ''.'' @ n1) =
          (if c2 \<noteq> [] then mp @ ''.'' @ c2 @ ''.'' @ n2 else mp @ ''.'' @ n2))
         = (n1 = n2 \<and> c1 = c2)"
proof (cases "c1 = []"; cases "c2 = []")
  assume "c1 = []" "c2 = []"
  then show ?thesis by simp
next
  assume c: "c1 = []" "c2 \<noteq> []"
  have "n1 \<noteq> c2 @ ''.'' @ n2" using assms(1) by auto
  then show ?thesis using c by auto
next
  assume c: "c1 \<noteq> []" "c2 = []"
  have "c1 @ ''.'' @ n1 \<noteq> n2" using assms(2) by auto
  then show ?thesis using c by auto
next
  assume c: "c1 \<noteq> []" "c2 \<noteq> []"
  have "(c1 @ CHR ''.'' # n1 = c2 @ CHR ''.'' # n2) = (n1 = n2 \<and> c1 = c2)"
    using last_dot_split [of c1 "CHR ''.''" n1 c2 n2] assms by auto
  then show ?thesis using c by simp
qed

lemma getComponentIDForFile_inj:
  assumes "CHR ''.'' \<notin> set n1" "CHR ''.'' \<notin> set n2"
  shows "(getComponentIDForFile L a fp n1 c1 = getComponentIDForFile L a fp n2 c2)
         = (n1 = n2 \<and> c1 = c2)"
  unfolding getComponentIDForFile_def Let_def
  by (rule qualified_name_inj [OF assms])

section \<open>Test files\<close>

lemma loadFile_test:
  "isTestSyntax f \<Longrightarrow> loadFile L W repoAbs p f m = Inr m"
  by (cases f) (simp_all add: loadFile_def isTestSyntax_def)

lemma loadFile_world:
  assumes "ReadFile W' = ReadFile W" "TypesInfo p' = TypesInfo p" "Types p' = Types p"
  shows "loadFile L W' repoAbs p' f m = loadFile L W repoAbs p f m"
  unfolding loadFile_def assms ..

lemma forEach_loadFile_filter:
  assumes "ReadFile W' = ReadFile W" "TypesInfo p' = TypesInfo p" "Types p' = Types p"
  shows "forEach (loadFile L W' repoAbs p') (filter (\<lambda>f. \<not> isTestSyntax f) fs) m =
         forEach (loadFile L W repoAbs p) fs m"
proof (induction fs arbitrary: m)
  case Nil
  then show ?case by simp
next
  case (Cons f fs)
  show ?case
  proof (cases "isTestSyntax f")
    case True
    then show ?thesis using Cons.IH by (simp add: loadFile_test)
  next
    case False
    then show ?thesis
      using Cons.IH by (simp add: loadFile_world [OF assms] split: sum.splits)
  qed
qed

lemma forEach_packages_filter:
  assumes "ReadFile W' = ReadFile W"
  shows "forEach (\<lambda>p. forEach (loadFile L W' repoAbs p) (Syntax p))
           (map (\<lambda>p. p\<lparr>Syntax := filter (\<lambda>f. \<not> isTestSyntax f) (Syntax p)\<rparr>) pkgs) m =
         forEach (\<lambda>p. forEach (loadFile L W repoAbs p) (Syntax p)) pkgs m"
proof (induction pkgs arbitrary: m)
  case Nil
  then show ?case by simp
next
  case (Cons p pkgs)
  have "forEach (loadFile L W' repoAbs (p\<lparr>Syntax := filter (\<lambda>f. \<not> isTestSyntax f) (Syntax p)\<rparr>))
          (filter (\<lambda>f. \<not> isTestSyntax f) (Syntax p)) m =
        forEach (loadFile L W repoAbs p) (Syntax p) m"
    by (rule forEach_loadFile_filter) (simp_all add: assms)
  then show ?case using Cons.IH by (simp split: sum.splits)
qed

lemma loadRoot_dropTests:
  "loadRoot L (dropTests W) repoAbs root m = loadRoot L W repoAbs root m"
proof (cases "loadPackages W root")
  case (Inl e)
  then show ?thesis by (simp add: loadRoot_def dropTests_def)
next
  case (Inr pkgs)
  have "ReadFile (dropTests W) = ReadFile W" by (simp add: dropTests_def)
  then show ?thesis
    using Inr forEach_packages_filter [of "dropTests W" W L repoAbs pkgs m]
    by (simp add: loadRoot_def dropTests_def)
qed

lemma loadFileInfos_dropTests:
  "loadFileInfos L (dropTests W) a = loadFileInfos L W a"
proof -
  have 1: "loadRoot L (dropTests W) (RepoAbs a) = loadRoot L W (RepoAbs a)"
    by (intro ext) (rule loadRoot_dropTests)
  have 2: "findModuleRoots (dropTests W) = findModuleRoots W"
    by (simp add: dropTests_def)
  show ?thesis unfolding loadFileInfos_def 1 2 ..
qed

text \<open>
  Every file that enters the map is a file whose name the test filter let through.
\<close>

lemma loadFile_noTestFiles:
  "noTestFiles m \<Longrightarrow> loadFile L W repoAbs p f m = Inr m' \<Longrightarrow> noTestFiles m'"
  by (cases f)
     (auto simp: loadFile_def noTestFiles_def isTestSyntax_def Let_def
           split: if_splits sum.splits)

lemma loadRoot_noTestFiles:
  assumes "noTestFiles m" "loadRoot L W repoAbs root m = Inr m'"
  shows "noTestFiles m'"
proof (cases "loadPackages W root")
  case (Inl e)
  then show ?thesis using assms by (simp add: loadRoot_def)
next
  case (Inr pkgs)
  then have l: "forEach (\<lambda>p. forEach (loadFile L W repoAbs p) (Syntax p)) pkgs m = Inr m'"
    using assms(2) by (simp add: loadRoot_def)
  show ?thesis
  proof (rule forEach_invariant [where I = noTestFiles, OF assms(1) _ l])
    fix p s s'
    assume 1: "noTestFiles s" and 2: "forEach (loadFile L W repoAbs p) (Syntax p) s = Inr s'"
    show "noTestFiles s'"
      by (rule forEach_invariant [where I = noTestFiles, OF 1 _ 2]) (rule loadFile_noTestFiles)
  qed
qed

lemma loadFileInfos_noTestFiles:
  assumes "loadFileInfos L W a = Inr fis"
  shows "noTestFiles fis"
proof -
  obtain roots where r: "findModuleRoots W = Inr roots"
    using assms by (auto simp: loadFileInfos_def split: sum.splits)
  let ?rs = "if length roots = 0 then [RepoAbs a] else roots"
  have l: "forEach (loadRoot L W (RepoAbs a)) ?rs Map.empty = Inr fis"
    using assms r by (simp add: loadFileInfos_def Let_def)
  have e: "noTestFiles Map.empty" by (simp add: noTestFiles_def)
  show ?thesis
    by (rule forEach_invariant [where I = noTestFiles, OF e _ l]) (rule loadRoot_noTestFiles)
qed

section \<open>Callees outside the root and builtins\<close>







section \<open>The example runs\<close>

text \<open>
  The three example modules are run in stages: loading, the collection pass, the
  resolution pass.
\<close>

lemma tiny_paths:
  "isTestFile ''/repo/a.go'' = False" "isTestFile ''/repo/a_test.go'' = True"
  "isPathInRepo belowRoot ''/repo'' ''/repo/a.go'' = True"
  "relPathOf belowRoot ''/repo'' ''/repo/a.go'' = ''a.go''"
  "isBuiltin ''g'' = False"
  by code_simp+

lemma absOrSame_belowRoot: "absOrSame belowRoot p = p"
  by (simp add: absOrSame_def belowRoot_def)

lemma tiny_ids:
  assumes "RepoAbs a = ''/repo''"
  shows "getComponentIDForFile belowRoot a ''/repo/a.go'' ''f'' [] = ''a.f''"
    and "getComponentIDForFile belowRoot a ''/repo/a.go'' ''g'' [] = ''a.g''"
proof -
  have c: "getComponentIDForFile belowRoot a = getComponentIDForFile belowRoot repoAnalyzer"
    by (rule getComponentIDForFile_cong) (simp add: assms repoAnalyzer_def)
  have "getComponentIDForFile belowRoot repoAnalyzer ''/repo/a.go'' ''f'' [] = ''a.f''"
       "getComponentIDForFile belowRoot repoAnalyzer ''/repo/a.go'' ''g'' [] = ''a.g''"
    by code_simp+
  then show "getComponentIDForFile belowRoot a ''/repo/a.go'' ''f'' [] = ''a.f''"
    and "getComponentIDForFile belowRoot a ''/repo/a.go'' ''g'' [] = ''a.g''"
    by (simp_all add: c)
qed

lemma tiny_load:
  "loadFileInfos belowRoot tinyWorld repoAnalyzer =
     Inr tinyInfos"
  by (simp add: tinyInfos_def tinyInfo_def loadFileInfos_def loadRoot_def loadFile_def tinyWorld_def repoAnalyzer_def
        tinyFile_def tinyTestFile_def at_def tiny_paths absOrSame_belowRoot Let_def)

lemma tiny_preorder:
  "preorder tinyFile =
     [tinyFile,
      FuncDecl None None ''f'' (Some []) [] (Some tinyBody)
        (at ''/repo/a.go'' 10 2) (at ''/repo/a.go'' 26 2),
      tinyBody,
      Other [CallExpr (at ''/repo/a.go'' 21 2) (Ident 1 ''g'') []],
      CallExpr (at ''/repo/a.go'' 21 2) (Ident 1 ''g'') [],
      Ident 1 ''g'',
      FuncDecl None None ''g'' (Some []) [] (Some (Other []))
        (at ''/repo/a.go'' 27 3) (at ''/repo/a.go'' 38 3),
      Other []]"
  by (simp add: preorder.simps tinyFile_def tinyDecls_def tinyBody_def)

lemma tiny_body_preorder:
  "preorder tinyBody =
     [tinyBody,
      Other [CallExpr (at ''/repo/a.go'' 21 2) (Ident 1 ''g'') []],
      CallExpr (at ''/repo/a.go'' 21 2) (Ident 1 ''g'') [],
      Ident 1 ''g'']"
  "preorder (Other []) = [Other []]"
  by (simp_all add: preorder.simps tinyBody_def)

lemma tiny_spans:
  "int (length tinySource) = 39"
  "take 16 (drop 10 tinySource) = ''func f() { g() }''"
  "take 11 (drop 27 tinySource) = ''func g() {}''"
  by (simp_all add: tinySource_def)

lemma funcVisit_simps:
  "funcVisit L fp fi (FuncDecl d recv nm ps sg b sp ep) a =
     visitFuncBodyForCalls L a (FuncDecl d recv nm ps sg b sp ep) fp (info fi) (pkg fi)"
  "funcVisit L fp fi (GenDecl tok doc specs) a = a"
  "funcVisit L fp fi (Ident i n) a = a"
  "funcVisit L fp fi (StarExpr x) a = a"
  "funcVisit L fp fi (SelectorExpr i x j s) a = a"
  "funcVisit L fp fi (IndexExpr x ix) a = a"
  "funcVisit L fp fi (IndexListExpr x ixs) a = a"
  "funcVisit L fp fi (CallExpr p f args) a = a"
  "funcVisit L fp fi (StructType fs) a = a"
  "funcVisit L fp fi (InterfaceType fs) a = a"
  "funcVisit L fp fi (TypeSpec td tn tps tt tsp tep) a = a"
  "funcVisit L fp fi (File fpos decls) a = a"
  "funcVisit L fp fi (Other xs) a = a"
  by (simp_all add: funcVisit_def)

lemma callVisit_simps:
  "callVisit L cid rn rt ti tp fp (CallExpr p f args) a =
     processCall L a cid rn rt (CallExpr p f args) ti tp fp"
  "callVisit L cid rn rt ti tp fp (FuncDecl d recv nm ps sg b sp ep) a = a"
  "callVisit L cid rn rt ti tp fp (GenDecl tok doc specs) a = a"
  "callVisit L cid rn rt ti tp fp (Ident i n) a = a"
  "callVisit L cid rn rt ti tp fp (StarExpr x) a = a"
  "callVisit L cid rn rt ti tp fp (SelectorExpr i x j s) a = a"
  "callVisit L cid rn rt ti tp fp (IndexExpr x ix) a = a"
  "callVisit L cid rn rt ti tp fp (IndexListExpr x ixs) a = a"
  "callVisit L cid rn rt ti tp fp (StructType fs) a = a"
  "callVisit L cid rn rt ti tp fp (InterfaceType fs) a = a"
  "callVisit L cid rn rt ti tp fp (TypeSpec td tn tps tt tsp tep) a = a"
  "callVisit L cid rn rt ti tp fp (File fpos decls) a = a"
  "callVisit L cid rn rt ti tp fp (Other xs) a = a"
  by (simp_all add: callVisit_def)

lemma tiny_skips:
  "collectVisit L fp buf tinyFile a = Inr a"
  "collectVisit L fp buf tinyBody a = Inr a"
  "funcVisit L fp fi tinyFile a = a"
  "funcVisit L fp fi tinyBody a = a"
  "callVisit L cid rn rt ti tp fp tinyBody a = a"
  by (simp_all add: collectVisit_simps funcVisit_simps callVisit_simps tinyFile_def tinyBody_def)

lemma tiny_ranges:
  "rangeFirst tinyWorld = [''/repo/a.go'']" "rangeSecond tinyWorld = [''/repo/a.go'']"
  by (simp_all add: tinyWorld_def)

lemma tiny_collect:
  "collectPass belowRoot tinyInfos [''/repo/a.go''] repoAnalyzer = Inr tinyCollected"
  by (simp add: collectPass_def tinyInfos_def tinyInfo_def collectNodes_def tiny_preorder collectVisit_simps
        tiny_skips visitFuncDecl_Inr funcDeclNode_def registerNode_def
        repoAnalyzer_def tinyCollected_def tinyNodeF_def tinyNodeG_def tiny_ids tiny_paths
        tiny_spans paramNames_def at_def Let_def)

lemma tiny_calls:
  "callPass belowRoot tinyInfos [''/repo/a.go''] tinyCollected =
     tinyCollected\<lparr>Relationships := [tinyEdge]\<rparr>"
  by (simp add: callPass_def tinyInfos_def tinyInfo_def collectCalls_def tiny_preorder funcVisit_simps
        tiny_skips visitFuncBodyForCalls_unfold tiny_body_preorder callVisit_simps
        processCall_unfold heuristicCallee_def appendCall_def lookupBool_def
        tinyCollected_def tinyEdge_def tiny_ids tiny_paths at_def)

lemma tiny_run:
  "Analyze belowRoot tinyWorld repoAnalyzer = Inr (tinyCollected\<lparr>Relationships := [tinyEdge]\<rparr>)"
  by (simp add: Analyze_def tiny_load tiny_collect tiny_calls tiny_ranges)

lemma tiny_result: "Analyze belowRoot tinyWorld repoAnalyzer = Inr tinyResult"
  by (simp add: tinyResult_def tiny_run)

lemma tinyResult_fields:
  "Nodes tinyResult = [tinyNodeF, tinyNodeG]"
  "Relationships tinyResult = [tinyEdge]"
  "CollectedNodeIDs tinyResult = [''a.f'' \<mapsto> True, ''a.g'' \<mapsto> True]"
  "RepoAbs tinyResult = ''/repo''"
  by (simp_all add: tinyResult_def tinyCollected_def)

lemma tinyCollected_fields:
  "Nodes tinyCollected = [tinyNodeF, tinyNodeG]"
  "Relationships tinyCollected = []"
  "CollectedNodeIDs tinyCollected = [''a.f'' \<mapsto> True, ''a.g'' \<mapsto> True]"
  "RepoAbs tinyCollected = ''/repo''"
  by (simp_all add: tinyCollected_def)

lemma tiny_members:
  "tinyInfos ''/repo/a.go'' = Some tinyInfo"
  "FuncDecl None None ''g'' (Some []) [] (Some (Other []))
     (at ''/repo/a.go'' 27 3) (at ''/repo/a.go'' 38 3) \<in> set (preorder (astFile tinyInfo))"
  "FuncDecl None None ''f'' (Some []) [] (Some tinyBody)
     (at ''/repo/a.go'' 10 2) (at ''/repo/a.go'' 26 2) \<in> set (preorder (astFile tinyInfo))"
  "CallExpr (at ''/repo/a.go'' 21 2) (Ident 1 ''g'') [] \<in> set (preorder tinyBody)"
  "info tinyInfo = None" "pkg tinyInfo = None"
  by (simp_all add: tinyInfos_def tinyInfo_def tiny_preorder tiny_body_preorder)

lemma init_paths:
  "isTestFile ''/repo/a.go'' = False"
  "isPathInRepo belowRoot ''/repo'' ''/repo/a.go'' = True"
  "relPathOf belowRoot ''/repo'' ''/repo/a.go'' = ''a.go''"
  "isTestFile ''/repo/flag.go'' = False"
  "isPathInRepo belowRoot ''/repo'' ''/repo/flag.go'' = True"
  "relPathOf belowRoot ''/repo'' ''/repo/flag.go'' = ''flag.go''"
  "isPathInRepo belowRoot ''/repo'' ''/usr/local/go/src/fmt/print.go'' = False"
  "isBuiltin ''len'' = True"
  by code_simp+

lemma example_ids:
  assumes "RepoAbs a = ''/repo''"
  shows "getComponentIDForFile belowRoot a ''/repo/a.go'' ''init'' [] = ''a.init''"
    and "getComponentIDForFile belowRoot a ''/repo/flag.go'' ''Usage'' [] = ''flag.Usage''"
    and "getComponentIDForFile belowRoot a ''/repo/flag.go'' ''main'' [] = ''flag.main''"
proof -
  have c: "getComponentIDForFile belowRoot a = getComponentIDForFile belowRoot repoAnalyzer"
    by (rule getComponentIDForFile_cong) (simp add: assms repoAnalyzer_def)
  have "getComponentIDForFile belowRoot repoAnalyzer ''/repo/a.go'' ''init'' [] = ''a.init''"
       "getComponentIDForFile belowRoot repoAnalyzer ''/repo/flag.go'' ''Usage'' [] = ''flag.Usage''"
       "getComponentIDForFile belowRoot repoAnalyzer ''/repo/flag.go'' ''main'' [] = ''flag.main''"
    by code_simp+
  then show "getComponentIDForFile belowRoot a ''/repo/a.go'' ''init'' [] = ''a.init''"
    and "getComponentIDForFile belowRoot a ''/repo/flag.go'' ''Usage'' [] = ''flag.Usage''"
    and "getComponentIDForFile belowRoot a ''/repo/flag.go'' ''main'' [] = ''flag.main''"
    by (simp_all add: c)
qed

lemma init_load: "loadFileInfos belowRoot initWorld repoAnalyzer = Inr initInfos"
  by (simp add: initInfos_def initInfo_def loadFileInfos_def loadRoot_def loadFile_def initWorld_def
        repoAnalyzer_def initFile_def at_def init_paths absOrSame_belowRoot Let_def)

lemma init_preorder:
  "preorder initFile =
     [initFile,
      FuncDecl None None ''init'' (Some []) [] (Some (Other []))
        (at ''/repo/a.go'' 11 3) (at ''/repo/a.go'' 25 3),
      Other [],
      FuncDecl None None ''init'' (Some []) [] (Some (Other []))
        (at ''/repo/a.go'' 27 5) (at ''/repo/a.go'' 41 5),
      Other []]"
  by (simp add: preorder.simps initFile_def initDecls_def)

lemma init_spans:
  "int (length initSource) = 42"
  "take 14 (drop 11 initSource) = ''func init() {}''"
  "take 14 (drop 27 initSource) = ''func init() {}''"
  by (simp_all add: initSource_def)

lemma init_skips:
  "collectVisit L fp buf initFile a = Inr a"
  "funcVisit L fp fi initFile a = a"
  by (simp_all add: collectVisit_simps funcVisit_simps initFile_def)

lemma init_ranges:
  "rangeFirst initWorld = [''/repo/a.go'']" "rangeSecond initWorld = [''/repo/a.go'']"
  by (simp_all add: initWorld_def)

lemma init_collect:
  "collectPass belowRoot initInfos [''/repo/a.go''] repoAnalyzer = Inr initCollected"
  by (simp add: collectPass_def initInfos_def initInfo_def collectNodes_def init_preorder collectVisit_simps
        init_skips visitFuncDecl_Inr funcDeclNode_def registerNode_def
        repoAnalyzer_def initCollected_def initNode_def example_ids init_paths
        init_spans paramNames_def at_def Let_def)

lemma init_calls:
  "callPass belowRoot initInfos [''/repo/a.go''] initCollected = initCollected"
  by (simp add: callPass_def initInfos_def initInfo_def collectCalls_def init_preorder funcVisit_simps
        init_skips visitFuncBodyForCalls_unfold tiny_body_preorder callVisit_simps)

lemma init_run: "Analyze belowRoot initWorld repoAnalyzer = Inr initCollected"
  by (simp add: Analyze_def init_load init_collect init_calls init_ranges)
















section \<open>Whole runs\<close>

text \<open>
  C1 (round-trip consistency).  In every run of \<^verbatim>\<open>Analyze\<close> that returns, the output is
  the initial list of nodes followed by the nodes the run appends, and for each
  appended node the identifier scheme applied to the node's own \<^verbatim>\<open>FilePath\<close>, \<^verbatim>\<open>Name\<close> and
  \<^verbatim>\<open>ClassName\<close> gives back its \<^verbatim>\<open>ID\<close>.  The identifiers the run adds to
  \<^verbatim>\<open>CollectedNodeIDs\<close>, against which the resolution pass looks callees up, are exactly
  the identifiers of the appended nodes.
\<close>

theorem roundtrip_consistency:
  assumes "Analyze L W a = Inr a'"
  shows "\<exists>new. Nodes a' = Nodes a @ new \<and>
           (\<forall>n\<in>set new.
              getComponentIDForFile L a' (FilePath n) (Name n) (ClassName n) = ID n) \<and>
           CollectedNodeIDs a' =
             (\<lambda>k. if k \<in> ID ` set new then Some True else CollectedNodeIDs a k)"
proof -
  from assms obtain fis a1 where
    c: "collectPass L fis (rangeFirst W) a = Inr a1" and
    r: "a' = callPass L fis (rangeSecond W) a1"
    by (rule Analyze_Inr)
  from collectPass_collected [OF c] obtain new where abs1: "RepoAbs a1 = RepoAbs a" and
    new: "Nodes a1 = Nodes a @ new"
      "\<forall>n\<in>set new. getComponentIDForFile L a (FilePath n) (Name n) (ClassName n) = ID n"
      "CollectedNodeIDs a1 =
         (\<lambda>k. if k \<in> ID ` set new then Some True else CollectedNodeIDs a k)"
    by (rule collected_obtain)
  have fr: "Nodes a' = Nodes a1" "RepoAbs a' = RepoAbs a1"
    "CollectedNodeIDs a' = CollectedNodeIDs a1"
    unfolding r by (simp_all add: edgeStep_frame [OF callPass_edgeStep])
  then have n: "Nodes a' = Nodes a @ new" and "RepoAbs a' = RepoAbs a"
    using new(1) abs1 by simp_all
  then have "getComponentIDForFile L a' = getComponentIDForFile L a"
    by (intro getComponentIDForFile_cong)
  then show ?thesis using n new(2,3) fr(3) by auto
qed

theorem roundtrip_consistency_witness:
  "Analyze belowRoot tinyWorld repoAnalyzer = Inr tinyResult \<and>
   (\<exists>new. Nodes tinyResult = Nodes repoAnalyzer @ new \<and>
      (\<forall>n\<in>set new.
         getComponentIDForFile belowRoot tinyResult (FilePath n) (Name n) (ClassName n) = ID n) \<and>
      CollectedNodeIDs tinyResult =
        (\<lambda>k. if k \<in> ID ` set new then Some True else CollectedNodeIDs repoAnalyzer k))"
  using roundtrip_consistency [OF tiny_result] tiny_result by simp

text \<open>
  C3 (two-pass phase ordering).  A run that returns loads the files, then runs the
  collection pass over all of them, reaching a state \<open>a1\<close>, and only then the resolution
  pass.  The collection pass appends no relationship; the resolution pass changes
  neither \<^verbatim>\<open>Nodes\<close> nor \<^verbatim>\<open>CollectedNodeIDs\<close>, and the relationships it appends are, file
  by file in the order of the second loop, the ones \<^verbatim>\<open>collectCalls\<close> computes on \<open>a1\<close>, that
  is against the identifier set of the whole run.
\<close>

theorem two_pass_ordering:
  assumes "Analyze L W a = Inr a'"
  shows "\<exists>fis a1.
           loadFileInfos L W a = Inr fis \<and>
           collectPass L fis (rangeFirst W) a = Inr a1 \<and>
           Relationships a1 = Relationships a \<and>
           Nodes a' = Nodes a1 \<and>
           CollectedNodeIDs a' = CollectedNodeIDs a1 \<and>
           Relationships a' = Relationships a1 @
             concat (map (\<lambda>filename.
                            case fis filename of
                              Some fi \<Rightarrow> Relationships
                                (collectCalls L (a1\<lparr>Relationships := []\<rparr>) filename fi)
                            | None \<Rightarrow> [])
                         (rangeSecond W))"
proof -
  from assms obtain fis a1 where
    l: "loadFileInfos L W a = Inr fis" and
    c: "collectPass L fis (rangeFirst W) a = Inr a1" and
    r: "a' = callPass L fis (rangeSecond W) a1"
    by (rule Analyze_Inr)
  have rel: "Relationships a1 = Relationships a"
    using collectPass_collected [OF c] unfolding collected_def by blast
  have frame: "Nodes a' = Nodes a1" "CollectedNodeIDs a' = CollectedNodeIDs a1"
    unfolding r by (simp_all add: edgeStep_frame [OF callPass_edgeStep])
  have "Relationships a' = Relationships a1 @
             concat (map (\<lambda>filename.
                            case fis filename of
                              Some fi \<Rightarrow> Relationships
                                (collectCalls L (a1\<lparr>Relationships := []\<rparr>) filename fi)
                            | None \<Rightarrow> [])
                         (rangeSecond W))"
    unfolding r by (subst callPass_files) simp
  then show ?thesis using l c rel frame by blast
qed

theorem two_pass_ordering_witness:
  "Analyze belowRoot tinyWorld repoAnalyzer = Inr tinyResult \<and>
   (\<exists>fis a1.
      loadFileInfos belowRoot tinyWorld repoAnalyzer = Inr fis \<and>
      collectPass belowRoot fis (rangeFirst tinyWorld) repoAnalyzer = Inr a1 \<and>
      Relationships a1 = Relationships repoAnalyzer \<and>
      Nodes tinyResult = Nodes a1 \<and>
      CollectedNodeIDs tinyResult = CollectedNodeIDs a1 \<and>
      Relationships tinyResult = Relationships a1 @
        concat (map (\<lambda>filename.
                       case fis filename of
                         Some fi \<Rightarrow> Relationships
                           (collectCalls belowRoot (a1\<lparr>Relationships := []\<rparr>) filename fi)
                       | None \<Rightarrow> [])
                    (rangeSecond tinyWorld)))"
  using two_pass_ordering [OF tiny_result] tiny_result by simp

text \<open>
  C4 (local resolution on the heuristic path).  Take a run that returns, a loaded file
  without type facts (no \<^verbatim>\<open>TypesInfo\<close> or no \<^verbatim>\<open>Types\<close>) that both passes visit, a free
  function \<open>name\<close> declared in that file, and a call \<open>name(...)\<close> with a bare, non-builtin
  identifier in the body of a function or method of the same file.  Then on every
  state of the resolution pass \<^verbatim>\<open>processCall\<close> appends exactly one relationship for
  the call: from the caller's identifier to the identifier the scheme gives \<open>name\<close> in
  the caller's file with no enclosing type, with \<^verbatim>\<open>IsResolved\<close> true.  This relationship
  is in the output of the run, and its callee is the identifier of a node of the run
  for \<open>name\<close> in that file.
\<close>

theorem local_resolution:
  assumes "Analyze L W a = Inr a'"
    and "loadFileInfos L W a = Inr fileInfos"
    and "fileInfos filePath = Some fi"
    and "filePath \<in> set (rangeFirst W)"
    and "filePath \<in> set (rangeSecond W)"
    and "info fi = None \<or> pkg fi = None"
    and "FuncDecl calleeDoc None name calleeParams calleeSig calleeBody calleeStart calleeEnd
           \<in> set (preorder (astFile fi))"
    and "FuncDecl fnDoc fnRecv fnName fnParams fnSig (Some body) fnStart fnEnd
           \<in> set (preorder (astFile fi))"
    and "CallExpr callPos (Ident funAddr name) args \<in> set (preorder body)"
    and "\<not> isBuiltin name"
  shows
    "let recvType = (case fnRecv of Some fs \<Rightarrow> fst (recvLoop fs ([], [])) | None \<Rightarrow> []);
         recvName = (case fnRecv of Some fs \<Rightarrow> snd (recvLoop fs ([], [])) | None \<Rightarrow> []);
         callerID = getComponentIDForFile L a' filePath fnName recvType;
         edge = \<lparr>Caller = callerID, Callee = getComponentIDForFile L a' filePath name [],
                  CallLine = Line callPos, IsResolved = True, RelationshipType = ''calls''\<rparr>
     in (\<forall>s. RepoAbs s = RepoAbs a' \<and> CollectedNodeIDs s = CollectedNodeIDs a' \<longrightarrow>
              processCall L s callerID recvName recvType
                (CallExpr callPos (Ident funAddr name) args) (info fi) (pkg fi) filePath =
              s\<lparr>Relationships := Relationships s @ [edge]\<rparr>) \<and>
        edge \<in> set (Relationships a') \<and>
        (\<exists>n\<in>set (Nodes a').
           ID n = getComponentIDForFile L a' filePath name [] \<and> Name n = name \<and>
           FilePath n = filePath \<and> ClassName n = [])"
proof -
  define recvType where
    "recvType = (case fnRecv of Some fs \<Rightarrow> fst (recvLoop fs ([], [])) | None \<Rightarrow> [])"
  define recvName where
    "recvName = (case fnRecv of Some fs \<Rightarrow> snd (recvLoop fs ([], [])) | None \<Rightarrow> [])"
  define callerID where "callerID = getComponentIDForFile L a' filePath fnName recvType"
  define edge where
    "edge = \<lparr>Caller = callerID, Callee = getComponentIDForFile L a' filePath name [],
             CallLine = Line callPos, IsResolved = True, RelationshipType = ''calls''\<rparr>"
  let ?call = "CallExpr callPos (Ident funAddr name) args"
  from assms(1) obtain fis a1 where
    l: "loadFileInfos L W a = Inr fis" and
    c: "collectPass L fis (rangeFirst W) a = Inr a1" and
    r: "a' = callPass L fis (rangeSecond W) a1" and
    fr: "RepoAbs a' = RepoAbs a1" "CollectedNodeIDs a' = CollectedNodeIDs a1"
        "Nodes a' = Nodes a1"
    by (rule Analyze_frame)
  have fis: "fis = fileInfos" using l assms(2) by simp
  have step: "processCall L s callerID recvName recvType ?call (info fi) (pkg fi) filePath =
              s\<lparr>Relationships := Relationships s @ [edge]\<rparr> \<and>
         (\<exists>n\<in>set (Nodes a1).
            Name n = name \<and> FilePath n = filePath \<and> ClassName n = [] \<and>
            ID n = getComponentIDForFile L s filePath name [])"
    if "RepoAbs s = RepoAbs a'" "CollectedNodeIDs s = CollectedNodeIDs a'" for s
  proof -
    have "getComponentIDForFile L s = getComponentIDForFile L a'"
      by (rule getComponentIDForFile_cong) (rule that(1))
    then show ?thesis
      using processCall_local [OF c [unfolded fis] assms(4) assms(3) assms(7) assms(10) assms(6),
              of s callerID recvName recvType callPos funAddr args]
            that fr
      by (simp add: edge_def)
  qed
  have 1: "\<forall>s. RepoAbs s = RepoAbs a' \<and> CollectedNodeIDs s = CollectedNodeIDs a' \<longrightarrow>
              processCall L s callerID recvName recvType ?call (info fi) (pkg fi) filePath =
              s\<lparr>Relationships := Relationships s @ [edge]\<rparr>"
    using step by blast
  let ?b = "bareState (RepoAbs a1) (CollectedNodeIDs a1)"
  have cid: "getComponentIDForFile L a1 = getComponentIDForFile L a'"
    by (rule getComponentIDForFile_cong) (simp add: fr)
  have cid': "callerID = getComponentIDForFile L a1 filePath fnName recvType"
    by (simp add: callerID_def cid)
  have "set (Relationships (callVisit L callerID recvName recvType (info fi) (pkg fi) filePath
               ?call ?b)) \<subseteq> set (Relationships a')"
    unfolding cid' recvName_def recvType_def r
    by (rule callPass_call_site [where fis = fis and k = filePath,
               OF assms(5) assms(3) [folded fis] assms(8) assms(9)])
  moreover have "callVisit L callerID recvName recvType (info fi) (pkg fi) filePath ?call ?b =
                 ?b\<lparr>Relationships := Relationships ?b @ [edge]\<rparr>"
    using step [of ?b] by (simp add: callVisit_def fr)
  ultimately have 2: "edge \<in> set (Relationships a')" by simp
  have 3: "\<exists>n\<in>set (Nodes a').
           ID n = getComponentIDForFile L a' filePath name [] \<and> Name n = name \<and>
           FilePath n = filePath \<and> ClassName n = []"
    using step [of a'] fr(3) by auto
  show ?thesis
    using 1 2 3
    unfolding Let_def recvType_def recvName_def callerID_def edge_def
    by blast
qed

theorem local_resolution_witness:
  "processCall belowRoot tinyCollected ''a.f'' [] []
     (CallExpr (at ''/repo/a.go'' 21 2) (Ident 1 ''g'') []) None None ''/repo/a.go'' =
   tinyCollected\<lparr>Relationships := [tinyEdge]\<rparr> \<and>
   tinyEdge \<in> set (Relationships tinyResult) \<and>
   (\<exists>n\<in>set (Nodes tinyResult).
      ID n = ''a.g'' \<and> Name n = ''g'' \<and> FilePath n = ''/repo/a.go'' \<and> ClassName n = [])"
proof -
  have "let recvType = (case None :: (string list \<times> ast) list option of
                          Some fs \<Rightarrow> fst (recvLoop fs ([], [])) | None \<Rightarrow> []);
         recvName = (case None :: (string list \<times> ast) list option of
                          Some fs \<Rightarrow> snd (recvLoop fs ([], [])) | None \<Rightarrow> []);
         callerID = getComponentIDForFile belowRoot tinyResult ''/repo/a.go'' ''f'' recvType;
         edge = \<lparr>Caller = callerID,
                  Callee = getComponentIDForFile belowRoot tinyResult ''/repo/a.go'' ''g'' [],
                  CallLine = Line (at ''/repo/a.go'' 21 2), IsResolved = True,
                  RelationshipType = ''calls''\<rparr>
     in (\<forall>s. RepoAbs s = RepoAbs tinyResult \<and>
              CollectedNodeIDs s = CollectedNodeIDs tinyResult \<longrightarrow>
              processCall belowRoot s callerID recvName recvType
                (CallExpr (at ''/repo/a.go'' 21 2) (Ident 1 ''g'') [])
                (info tinyInfo) (pkg tinyInfo)
                ''/repo/a.go'' =
              s\<lparr>Relationships := Relationships s @ [edge]\<rparr>) \<and>
        edge \<in> set (Relationships tinyResult) \<and>
        (\<exists>n\<in>set (Nodes tinyResult).
           ID n = getComponentIDForFile belowRoot tinyResult ''/repo/a.go'' ''g'' [] \<and>
           Name n = ''g'' \<and> FilePath n = ''/repo/a.go'' \<and> ClassName n = [])"
    by (rule local_resolution [OF tiny_result tiny_load tiny_members(1) _ _ _
               tiny_members(2) tiny_members(3) tiny_members(4)])
       (simp_all add: tiny_ranges tiny_paths tiny_members)
  then have h: "(\<forall>s. RepoAbs s = ''/repo'' \<and>
        CollectedNodeIDs s = [''a.f'' \<mapsto> True, ''a.g'' \<mapsto> True] \<longrightarrow>
        processCall belowRoot s ''a.f'' [] []
          (CallExpr (at ''/repo/a.go'' 21 2) (Ident 1 ''g'') []) None None ''/repo/a.go'' =
        s\<lparr>Relationships := Relationships s @ [tinyEdge]\<rparr>) \<and>
   tinyEdge \<in> set (Relationships tinyResult) \<and>
   (\<exists>n\<in>set (Nodes tinyResult).
      ID n = ''a.g'' \<and> Name n = ''g'' \<and> FilePath n = ''/repo/a.go'' \<and> ClassName n = [])"
    by (simp add: Let_def tiny_ids tinyResult_fields tinyEdge_def at_def tiny_members)
  show ?thesis
    using h [THEN conjunct1, THEN spec, of tinyCollected] h [THEN conjunct2]
    by (simp add: tinyCollected_fields)
qed






text \<open>
  C9 (identifier uniqueness), as the code has it.  Among the nodes a run appends,
  two nodes of the same file whose names contain no dot (no Go identifier does) have
  the same identifier exactly when they have the same name and the same enclosing
  type.  Nothing keeps two declarations of one file from sharing both.
\<close>

theorem identifiers_within_a_file:
  assumes "Analyze L W a = Inr a'"
  shows "\<exists>new. Nodes a' = Nodes a @ new \<and>
           (\<forall>n\<in>set new. \<forall>m\<in>set new.
              FilePath n = FilePath m \<longrightarrow>
              CHR ''.'' \<notin> set (Name n) \<longrightarrow> CHR ''.'' \<notin> set (Name m) \<longrightarrow>
              (ID n = ID m) = (Name n = Name m \<and> ClassName n = ClassName m))"
proof -
  from assms obtain fis a1 where
    c: "collectPass L fis (rangeFirst W) a = Inr a1" and
    r: "a' = callPass L fis (rangeSecond W) a1"
    by (rule Analyze_Inr)
  from collectPass_collected [OF c] obtain new where
    new: "Nodes a1 = Nodes a @ new"
      "\<forall>n\<in>set new. getComponentIDForFile L a (FilePath n) (Name n) (ClassName n) = ID n"
    unfolding collected_def by blast
  have "Nodes a' = Nodes a @ new"
    unfolding r using new(1) by (simp add: edgeStep_frame [OF callPass_edgeStep])
  moreover have "(ID n = ID m) = (Name n = Name m \<and> ClassName n = ClassName m)"
    if "n \<in> set new" "m \<in> set new" "FilePath n = FilePath m"
      "CHR ''.'' \<notin> set (Name n)" "CHR ''.'' \<notin> set (Name m)" for n m
  proof -
    have "ID n = getComponentIDForFile L a (FilePath m) (Name n) (ClassName n)"
         "ID m = getComponentIDForFile L a (FilePath m) (Name m) (ClassName m)"
      using new(2) that(1,2,3) by auto
    then show ?thesis using getComponentIDForFile_inj [OF that(4,5)] by simp
  qed
  ultimately show ?thesis by blast
qed

theorem identifiers_within_a_file_witness:
  "Analyze belowRoot tinyWorld repoAnalyzer = Inr tinyResult \<and>
   (\<exists>new. Nodes tinyResult = Nodes repoAnalyzer @ new \<and>
      (\<forall>n\<in>set new. \<forall>m\<in>set new.
         FilePath n = FilePath m \<longrightarrow>
         CHR ''.'' \<notin> set (Name n) \<longrightarrow> CHR ''.'' \<notin> set (Name m) \<longrightarrow>
         (ID n = ID m) = (Name n = Name m \<and> ClassName n = ClassName m)))"
  using identifiers_within_a_file [OF tiny_result] tiny_result by simp

text \<open>
  C9 as the specification words it fails on a file with two \<^verbatim>\<open>init\<close> functions: the
  run appends two different nodes with the identifier \<^verbatim>\<open>a.init\<close>.
\<close>

theorem identifiers_not_unique:
  "Analyze belowRoot initWorld repoAnalyzer = Inr initCollected \<and>
   Nodes initCollected = [initNode 3, initNode 5] \<and>
   initNode 3 \<noteq> initNode 5 \<and>
   ID (initNode 3) = ID (initNode 5)"
  by (simp add: init_run initCollected_def initNode_def)

text \<open>
  C10 (test files are excluded).  A run gives the same result as the run on the
  same module with every test file removed from the packages.  In a run that
  returns, no loaded file is a test file, every appended node belongs to a loaded
  file, the identifiers added to \<^verbatim>\<open>CollectedNodeIDs\<close> are the identifiers of these nodes,
  and the relationships appended are the ones \<^verbatim>\<open>collectCalls\<close> computes for loaded
  files.
\<close>

theorem test_files_excluded:
  "Analyze L (dropTests W) a = Analyze L W a \<and>
   (\<forall>a'. Analyze L W a = Inr a' \<longrightarrow>
      (\<exists>fis new.
         loadFileInfos L W a = Inr fis \<and>
         (\<forall>filename fi. fis filename = Some fi \<longrightarrow> \<not> isTestSyntax (astFile fi)) \<and>
         Nodes a' = Nodes a @ new \<and>
         (\<forall>n\<in>set new. FilePath n \<in> dom fis) \<and>
         CollectedNodeIDs a' =
           (\<lambda>k. if k \<in> ID ` set new then Some True else CollectedNodeIDs a k) \<and>
         Relationships a' = Relationships a @
           concat (map (\<lambda>filename.
                          case fis filename of
                            Some fi \<Rightarrow> Relationships
                              (collectCalls L (a'\<lparr>Relationships := []\<rparr>) filename fi)
                          | None \<Rightarrow> [])
                       (rangeSecond W))))"
proof (intro conjI allI impI)
  have r: "rangeFirst (dropTests W) = rangeFirst W" "rangeSecond (dropTests W) = rangeSecond W"
    by (simp_all add: dropTests_def)
  show "Analyze L (dropTests W) a = Analyze L W a"
    unfolding Analyze_def loadFileInfos_dropTests r ..
next
  fix a'
  assume "Analyze L W a = Inr a'"
  then obtain fis a1 where
    l: "loadFileInfos L W a = Inr fis" and
    c: "collectPass L fis (rangeFirst W) a = Inr a1" and
    r: "a' = callPass L fis (rangeSecond W) a1"
    by (rule Analyze_Inr)
  from collectPass_collected [OF c] obtain new where rel1: "Relationships a1 = Relationships a"
    and new: "Nodes a1 = Nodes a @ new"
      "\<forall>n\<in>set new. FilePath n \<in> set (rangeFirst W) \<inter> dom fis"
      "CollectedNodeIDs a1 =
         (\<lambda>k. if k \<in> ID ` set new then Some True else CollectedNodeIDs a k)"
    by (rule collected_obtain)
  have fr: "Nodes a' = Nodes a1" "CollectedNodeIDs a' = CollectedNodeIDs a1"
    unfolding r by (simp_all add: edgeStep_frame [OF callPass_edgeStep])
  have files: "a' = a1\<lparr>Relationships := Relationships a1 @
        concat (map (\<lambda>k. case fis k of
                            Some fi \<Rightarrow> Relationships
                                         (collectCalls L (a1\<lparr>Relationships := []\<rparr>) k fi)
                          | None \<Rightarrow> []) (rangeSecond W))\<rparr>"
    unfolding r by (rule callPass_files)
  have bare: "a'\<lparr>Relationships := []\<rparr> = a1\<lparr>Relationships := []\<rparr>"
    by (subst files) simp
  have rel: "Relationships a' = Relationships a @
           concat (map (\<lambda>filename.
                          case fis filename of
                            Some fi \<Rightarrow> Relationships
                              (collectCalls L (a'\<lparr>Relationships := []\<rparr>) filename fi)
                          | None \<Rightarrow> [])
                       (rangeSecond W))"
    unfolding bare by (subst files) (simp add: rel1)
  have nt: "\<forall>filename fi. fis filename = Some fi \<longrightarrow> \<not> isTestSyntax (astFile fi)"
    using loadFileInfos_noTestFiles [OF l] by (simp add: noTestFiles_def)
  show "\<exists>fis new.
         loadFileInfos L W a = Inr fis \<and>
         (\<forall>filename fi. fis filename = Some fi \<longrightarrow> \<not> isTestSyntax (astFile fi)) \<and>
         Nodes a' = Nodes a @ new \<and>
         (\<forall>n\<in>set new. FilePath n \<in> dom fis) \<and>
         CollectedNodeIDs a' =
           (\<lambda>k. if k \<in> ID ` set new then Some True else CollectedNodeIDs a k) \<and>
         Relationships a' = Relationships a @
           concat (map (\<lambda>filename.
                          case fis filename of
                            Some fi \<Rightarrow> Relationships
                              (collectCalls L (a'\<lparr>Relationships := []\<rparr>) filename fi)
                          | None \<Rightarrow> [])
                       (rangeSecond W))"
    using l nt new fr rel by (intro exI [of _ fis] exI [of _ new]) simp
qed

theorem test_files_excluded_witness:
  "Analyze belowRoot (dropTests tinyWorld) repoAnalyzer = Inr tinyResult \<and>
   (\<exists>fis new.
      loadFileInfos belowRoot tinyWorld repoAnalyzer = Inr fis \<and>
      (\<forall>filename fi. fis filename = Some fi \<longrightarrow> \<not> isTestSyntax (astFile fi)) \<and>
      Nodes tinyResult = Nodes repoAnalyzer @ new \<and>
      (\<forall>n\<in>set new. FilePath n \<in> dom fis) \<and>
      CollectedNodeIDs tinyResult =
        (\<lambda>k. if k \<in> ID ` set new then Some True else CollectedNodeIDs repoAnalyzer k) \<and>
      Relationships tinyResult = Relationships repoAnalyzer @
        concat (map (\<lambda>filename.
                       case fis filename of
                         Some fi \<Rightarrow> Relationships
                           (collectCalls belowRoot (tinyResult\<lparr>Relationships := []\<rparr>)
                              filename fi)
                       | None \<Rightarrow> [])
                    (rangeSecond tinyWorld)))"
  using test_files_excluded [of belowRoot tinyWorld repoAnalyzer] tiny_result by simp

end
